theory Spec2Isabelle
  imports Complex_Main "HOL-Library.AList"
begin

section \<open>The response parser of the writing analyzer\<close>

text \<open>
  This theory embeds \<^verbatim>\<open>parseAnalysisOutput(output, writing)\<close>, the function of the
  analysis route that turns the language model's free text into criterion scores and
  located error annotations, and settles the statements made about it.

  The function rests on services of the JavaScript platform. Its four regular expressions
  (as matchers that follow the backtracking order of each expression), \<^verbatim>\<open>parseFloat\<close>
  on the captures of those expressions and the stable \<^verbatim>\<open>Array.prototype.sort\<close> are
  written out below for the arguments the function gives them. \<^verbatim>\<open>JSON.parse\<close> and
  \<^verbatim>\<open>String.prototype.toLowerCase\<close> are applied to arbitrary text and are parameters
  of the embedding, \<open>JSON_parse\<close> (with \<open>Inl\<close> when it throws) and \<open>toLowerCase\<close>; only
  on the four constant category names is \<^verbatim>\<open>toLowerCase\<close> written out. The scores are
  double precision numbers, and every sum and quotient of the function is rounded as the
  platform rounds it.
\<close>

subsection \<open>Strings\<close>

text \<open>
  A JavaScript string is a sequence of UTF-16 code units; \<^verbatim>\<open>length\<close>, \<^verbatim>\<open>substring\<close>
  and the regular expressions (none has the \<^verbatim>\<open>u\<close> flag) count and read code units.
  \<open>js\<close> writes an ASCII literal as such a sequence.
\<close>

type_synonym jstring = "nat list"

definition js :: "string \<Rightarrow> jstring" where
  "js s = map of_char s"

text \<open>\<^verbatim>\<open>s.substring(a, b)\<close> for \<open>a \<le> b\<close>, the only way it is called; both ends are
  clamped to the length of the string.\<close>

definition substring :: "jstring \<Rightarrow> nat \<Rightarrow> nat \<Rightarrow> jstring" where
  "substring s a b = take (b - a) (drop a s)"

text \<open>The classes \<^verbatim>\<open>\d\<close>, \<^verbatim>\<open>\s\<close> (white space and line terminators, which is also what
  \<^verbatim>\<open>trim\<close> strips) and the line terminators that \<^verbatim>\<open>.\<close> does not match.\<close>

definition is_digit :: "nat \<Rightarrow> bool" where
  "is_digit c \<longleftrightarrow> 48 \<le> c \<and> c \<le> 57"

definition is_line_terminator :: "nat \<Rightarrow> bool" where
  "is_line_terminator c \<longleftrightarrow> c = 10 \<or> c = 13 \<or> c = 8232 \<or> c = 8233"

definition is_white_space :: "nat \<Rightarrow> bool" where
  "is_white_space c \<longleftrightarrow>
     c = 9 \<or> c = 10 \<or> c = 11 \<or> c = 12 \<or> c = 13 \<or> c = 32 \<or> c = 160 \<or> c = 5760 \<or>
     (8192 \<le> c \<and> c \<le> 8202) \<or> c = 8232 \<or> c = 8233 \<or> c = 8239 \<or> c = 8287 \<or>
     c = 12288 \<or> c = 65279"

text \<open>
  Under the \<^verbatim>\<open>i\<close> flag two code units match when they canonicalize to the same unit.
  Every pattern character of the three expressions is ASCII, and canonicalization never
  maps a unit of 128 or more below 128, so upper-casing the ASCII letters decides the match.
\<close>

definition canonicalize :: "nat \<Rightarrow> nat" where
  "canonicalize c = (if 97 \<le> c \<and> c \<le> 122 then c - 32 else c)"

definition ci_eq :: "nat \<Rightarrow> nat \<Rightarrow> bool" where
  "ci_eq p c \<longleftrightarrow> canonicalize p = canonicalize c"

text \<open>A literal pattern at the head of the input; the result is the input after it.\<close>

fun ci_prefix :: "jstring \<Rightarrow> jstring \<Rightarrow> jstring option" where
  "ci_prefix [] s = Some s"
| "ci_prefix (p # ps) [] = None"
| "ci_prefix (p # ps) (c # cs) = (if ci_eq p c then ci_prefix ps cs else None)"

definition trim :: "jstring \<Rightarrow> jstring" where
  "trim s = rev (dropWhile is_white_space (rev (dropWhile is_white_space s)))"

text \<open>\<^verbatim>\<open>s.replace(/\n+/g, ' ')\<close>: every maximal run of line feeds becomes one space.\<close>

fun collapse_newlines :: "jstring \<Rightarrow> jstring" where
  "collapse_newlines [] = []"
| "collapse_newlines [c] = [if c = 10 then 32 else c]"
| "collapse_newlines (c # d # cs) =
     (if c = 10 then (if d = 10 then collapse_newlines (d # cs)
                      else 32 # collapse_newlines (d # cs))
      else c # collapse_newlines (d # cs))"

text \<open>\<^verbatim>\<open>s.split('\n')\<close>; the empty string splits into one empty line.\<close>

fun split_lines :: "jstring \<Rightarrow> jstring list" where
  "split_lines [] = [[]]"
| "split_lines (c # cs) =
     (if c = 10 then [] # split_lines cs
      else (case split_lines cs of [] \<Rightarrow> [[c]] | l # ls \<Rightarrow> (c # l) # ls))"

text \<open>\<^verbatim>\<open>s.indexOf(pat)\<close>, with \<open>None\<close> for \<open>-1\<close>.\<close>

fun indexOf :: "jstring \<Rightarrow> jstring \<Rightarrow> nat option" where
  "indexOf [] pat = (if pat = [] then Some 0 else None)"
| "indexOf (c # cs) pat =
     (if take (length pat) (c # cs) = pat then Some 0
      else map_option Suc (indexOf cs pat))"

subsection \<open>Numbers\<close>

text \<open>
  The scores are JavaScript numbers, that is, IEEE 754 double precision values. A finite
  double is given by the rational number that is its value; the two infinities and
  \<^verbatim>\<open>NaN\<close> stand beside them. The sign of a zero is not kept: no number of the function is
  negative, and nothing in it tells the two zeros apart.
\<close>

datatype jsnum = Num rat | NaN | PosInf | NegInf

text \<open>
  Rounding to double precision, to the nearest value with a tie going to the even
  significand. \<open>bits n\<close> is the number of binary digits of \<open>n\<close>, and \<open>ilog2 a\<close> is the binary
  exponent of a positive \<open>a\<close>: the \<open>e\<close> with \<open>2 ^ e \<le> a < 2 ^ (e + 1)\<close>. The doubles
  with this exponent are the multiples of \<open>ulp a\<close>, which is \<open>2 ^ (e - 52)\<close> and never less
  than \<open>2 ^ (- 1074)\<close>, the spacing of the subnormal numbers. A value that rounds to
  \<open>2 ^ 1024\<close> or more becomes an infinity.
\<close>

function bits :: "int \<Rightarrow> int" where
  "bits n = (if n \<le> 0 then 0 else 1 + bits (n div 2))"
  by auto

termination bits
  by (relation "measure nat") auto

declare bits.simps [simp del]

definition ilog2 :: "rat \<Rightarrow> int" where
  "ilog2 a = (if 1 \<le> a then bits \<lfloor>a\<rfloor> - 1 else - bits (\<lceil>1 / a\<rceil> - 1))"

definition round_half_even :: "rat \<Rightarrow> int" where
  "round_half_even x =
     (if x - of_int \<lfloor>x\<rfloor> < 1 / 2 then \<lfloor>x\<rfloor>
      else if 1 / 2 < x - of_int \<lfloor>x\<rfloor> then \<lfloor>x\<rfloor> + 1
      else if even \<lfloor>x\<rfloor> then \<lfloor>x\<rfloor> else \<lfloor>x\<rfloor> + 1)"

definition ulp :: "rat \<Rightarrow> rat" where
  "ulp a = power_int 2 (max (ilog2 a) (- 1022) - 52)"

definition nearest :: "rat \<Rightarrow> rat" where
  "nearest a = of_int (round_half_even (a / ulp a)) * ulp a"

definition fp64 :: "rat \<Rightarrow> jsnum" where
  "fp64 q =
     (if q = 0 then Num 0
      else if 0 < q then (if 2 ^ 1024 \<le> nearest q then PosInf else Num (nearest q))
      else (if 2 ^ 1024 \<le> nearest (- q) then NegInf else Num (- nearest (- q))))"

text \<open>
  \<^verbatim>\<open>a + b\<close> and \<^verbatim>\<open>a / n\<close> on numbers: the exact result, rounded. The divisor is the
  length of an array, which the platform keeps below \<open>2 ^ 32\<close> and which is therefore a
  double as it stands.
\<close>

fun js_add :: "jsnum \<Rightarrow> jsnum \<Rightarrow> jsnum" where
  "js_add (Num a) (Num b) = fp64 (a + b)"
| "js_add NaN _ = NaN"
| "js_add _ NaN = NaN"
| "js_add PosInf NegInf = NaN"
| "js_add NegInf PosInf = NaN"
| "js_add PosInf _ = PosInf"
| "js_add _ PosInf = PosInf"
| "js_add NegInf _ = NegInf"
| "js_add _ NegInf = NegInf"

fun js_div :: "jsnum \<Rightarrow> nat \<Rightarrow> jsnum" where
  "js_div (Num a) n =
     (if n = 0 then (if 0 < a then PosInf else if a < 0 then NegInf else NaN)
      else fp64 (a / of_nat n))"
| "js_div NaN n = NaN"
| "js_div PosInf n = PosInf"
| "js_div NegInf n = NegInf"

text \<open>
  \<^verbatim>\<open>Math.round\<close>: the nearest integer, a tie going up. The result is computed exactly; it
  is a double whenever the argument is one.
\<close>

fun Math_round :: "jsnum \<Rightarrow> jsnum" where
  "Math_round (Num a) = Num (of_int \<lfloor>a + 1 / 2\<rfloor>)"
| "Math_round NaN = NaN"
| "Math_round PosInf = PosInf"
| "Math_round NegInf = NegInf"

text \<open>\<^verbatim>\<open>a <= b\<close> on numbers.\<close>

fun js_le :: "jsnum \<Rightarrow> jsnum \<Rightarrow> bool" where
  "js_le (Num a) (Num b) \<longleftrightarrow> a \<le> b"
| "js_le NaN _ \<longleftrightarrow> False"
| "js_le _ NaN \<longleftrightarrow> False"
| "js_le NegInf _ \<longleftrightarrow> True"
| "js_le _ PosInf \<longleftrightarrow> True"
| "js_le _ _ \<longleftrightarrow> False"

fun digits_value :: "jstring \<Rightarrow> nat" where
  "digits_value [] = 0"
| "digits_value (c # cs) = (c - 48) * 10 ^ length cs + digits_value cs"

text \<open>
  \<^verbatim>\<open>parseFloat\<close> on a text that starts with a decimal literal \<^verbatim>\<open>digits\<close> or
  \<^verbatim>\<open>digits.digits\<close>, and on a text that starts with anything but a digit, a sign, a dot or
  white space, where it is \<^verbatim>\<open>NaN\<close>. The captures it is given are of these kinds only: one
  digit, digit dot digit, or the letter d. The result is the double nearest to the value of
  the literal.
\<close>

definition parseFloat :: "jstring \<Rightarrow> jsnum" where
  "parseFloat s =
     (let ip = takeWhile is_digit s; r = dropWhile is_digit s in
      if ip = [] then NaN
      else (case r of
              [] \<Rightarrow> fp64 (of_nat (digits_value ip))
            | d # r' \<Rightarrow>
                (let fp = takeWhile is_digit r' in
                 if d = 46 \<and> fp \<noteq> []
                 then fp64 (of_nat (digits_value ip) + of_nat (digits_value fp) / 10 ^ length fp)
                 else fp64 (of_nat (digits_value ip)))))"

subsection \<open>The criterion extractor\<close>

record Criterion =
  name :: jstring
  score :: jsnum
  feedback :: jstring

definition requiredCriteria :: "jstring list" where
  "requiredCriteria =
     [js ''Content'', js ''Communicative Achievement'', js ''Organisation'', js ''Language'']"

text \<open>
  The alternation \<^verbatim>\<open>(Content|Communicative Achievement|Organisation|Language)\<close> under the
  \<^verbatim>\<open>i\<close> flag: the alternatives in their order; the result is the matched text, in the
  letter case of the input, and the input after it. At most one alternative matches at a
  position (\<open>alternatives_exclusive\<close> below), so the alternation is never re-entered.
\<close>

fun first_alternative :: "jstring list \<Rightarrow> jstring \<Rightarrow> (jstring \<times> jstring) option" where
  "first_alternative [] s = None"
| "first_alternative (n # ns) s =
     (case ci_prefix n s of
        Some r \<Rightarrow> Some (take (length n) s, r)
      | None \<Rightarrow> first_alternative ns s)"

definition match_name :: "jstring \<Rightarrow> (jstring \<times> jstring) option" where
  "match_name s = first_alternative requiredCriteria s"

text \<open>
  \<^verbatim>\<open>\((\d(?:\.\d)?)\/5\):\<close> of the primary expression: the capture and the input after
  the colon. The optional fraction is tried first, then skipped.
\<close>

definition match_score :: "jstring \<Rightarrow> (jstring \<times> jstring) option" where
  "match_score s =
     (case s of
        p # d # r \<Rightarrow>
          if p = 40 \<and> is_digit d then
            (case (case r of
                     dot # d' # r' \<Rightarrow>
                       if dot = 46 \<and> is_digit d'
                       then map_option (Pair [d, dot, d']) (ci_prefix (js ''/5):'') r')
                       else None
                   | _ \<Rightarrow> None) of
               Some x \<Rightarrow> Some x
             | None \<Rightarrow> map_option (Pair [d]) (ci_prefix (js ''/5):'') r))
          else None
      | _ \<Rightarrow> None)"

text \<open>
  A header \<^verbatim>\<open>(name)\s*\((score)\/5\):\<close> at the head of the input: the name as written,
  the score text, and the input after the colon. The white space is followed by a
  parenthesis, so giving some of it back never helps.
\<close>

definition match_header :: "jstring \<Rightarrow> (jstring \<times> jstring \<times> jstring) option" where
  "match_header s =
     (case match_name s of
        None \<Rightarrow> None
      | Some (nm, r) \<Rightarrow>
          (case match_score (dropWhile is_white_space r) of
             None \<Rightarrow> None
           | Some (sc, rest) \<Rightarrow> Some (nm, sc, rest)))"

text \<open>
  \<^verbatim>\<open>([\s\S]*?)(?=header|$)\<close>: the shortest text after which a header starts or the input
  ends, and the input from there on (the lookahead consumes nothing).
\<close>

fun lazy_feedback :: "jstring \<Rightarrow> jstring \<times> jstring" where
  "lazy_feedback [] = ([], [])"
| "lazy_feedback (c # cs) =
     (if match_header (c # cs) \<noteq> None then ([], c # cs)
      else (case lazy_feedback cs of (f, r) \<Rightarrow> (c # f, r)))"

text \<open>One match of the primary expression at the head of the input: captures 1, 2 and 3 and
  the input from \<^verbatim>\<open>lastIndex\<close> on.\<close>

definition primary_at :: "jstring \<Rightarrow> ((jstring \<times> jstring \<times> jstring) \<times> jstring) option" where
  "primary_at s =
     (case match_header s of
        None \<Rightarrow> None
      | Some (nm, sc, rest) \<Rightarrow>
          (case lazy_feedback (dropWhile is_white_space rest) of
             (fb, rest') \<Rightarrow> Some ((nm, sc, fb), rest')))"

lemma ci_prefix_length: "ci_prefix p s = Some r \<Longrightarrow> length s = length p + length r"
  by (induction p s rule: ci_prefix.induct) (auto split: if_splits)

lemma first_alternative_length:
  "first_alternative ns s = Some (nm, r) \<Longrightarrow> [] \<notin> set ns \<Longrightarrow> length r < length s"
  by (induction ns) (auto split: option.splits dest: ci_prefix_length)

lemma match_name_length: "match_name s = Some (nm, r) \<Longrightarrow> length r < length s"
  unfolding match_name_def
  by (erule first_alternative_length) (simp add: requiredCriteria_def js_def)

lemma match_score_length: "match_score s = Some (sc, r) \<Longrightarrow> length r < length s"
  unfolding match_score_def
  by (auto split: list.splits if_splits option.splits dest!: ci_prefix_length)

lemma match_header_length: "match_header s = Some (nm, sc, r) \<Longrightarrow> length r < length s"
proof -
  assume h: "match_header s = Some (nm, sc, r)"
  then obtain r0 where n: "match_name s = Some (nm, r0)"
    and m: "match_score (dropWhile is_white_space r0) = Some (sc, r)"
    unfolding match_header_def by (auto split: option.splits)
  have "length r < length (dropWhile is_white_space r0)"
    using m by (rule match_score_length)
  also have "\<dots> \<le> length r0" by (rule length_dropWhile_le)
  also have "\<dots> < length s" using n by (rule match_name_length)
  finally show ?thesis .
qed

lemma lazy_feedback_length: "lazy_feedback s = (f, r) \<Longrightarrow> length r \<le> length s"
  by (induction s arbitrary: f r) (auto split: if_splits prod.splits)

lemma primary_at_length: "primary_at s = Some (m, r) \<Longrightarrow> length r < length s"
proof -
  assume h: "primary_at s = Some (m, r)"
  then obtain nm sc rest fb where hd: "match_header s = Some (nm, sc, rest)"
    and lf: "lazy_feedback (dropWhile is_white_space rest) = (fb, r)"
    unfolding primary_at_def by (auto split: option.splits prod.splits)
  have "length r \<le> length (dropWhile is_white_space rest)"
    using lf by (rule lazy_feedback_length)
  also have "\<dots> \<le> length rest" by (rule length_dropWhile_le)
  also have "\<dots> < length s" using hd by (rule match_header_length)
  finally show ?thesis .
qed

text \<open>
  The loop \<^verbatim>\<open>while ((match = regex.exec(analysisText)) !== null)\<close> of the global
  expression: the leftmost match from \<^verbatim>\<open>lastIndex\<close> on, then again from its end.
\<close>

function primary_matches :: "jstring \<Rightarrow> (jstring \<times> jstring \<times> jstring) list" where
  "primary_matches [] = []"
| "primary_matches (c # cs) =
     (case primary_at (c # cs) of
        None \<Rightarrow> primary_matches cs
      | Some (m, rest) \<Rightarrow> m # primary_matches rest)"
  by pat_completeness auto
termination
  by (relation "measure length") (auto dest: primary_at_length)

text \<open>
  The running state of the extractor is the array \<^verbatim>\<open>criteria\<close> and the sum
  \<^verbatim>\<open>overallScore\<close>; the three passes push a record and add its score.
\<close>

type_synonym extractor_state = "Criterion list \<times> jsnum"

definition push :: "Criterion \<Rightarrow> extractor_state \<Rightarrow> extractor_state" where
  "push c st = (fst st @ [c], js_add (snd st) (score c))"

definition primary_pass :: "jstring \<Rightarrow> extractor_state" where
  "primary_pass analysisText =
     foldl (\<lambda>st (nm, sc, fb).
              push \<lparr>name = trim nm, score = parseFloat sc,
                    feedback = collapse_newlines (trim fb)\<rparr> st)
       ([], Num 0) (primary_matches analysisText)"

text \<open>
  The line expression
  \<^verbatim>\<open>/(Content|Communicative Achievement|Organisation|Language).*?(\d)\/5.*?:\s*(.+)/i\<close>,
  from its end to its start. \<open>dot_plus\<close> is \<^verbatim>\<open>(.+)\<close>, greedy; \<open>match_tail\<close> is
  \<^verbatim>\<open>\s*(.+)\<close>, the white space greedy and given back one unit at a time;
  \<open>match_colon\<close> puts the lazy \<^verbatim>\<open>.*?:\<close> before it, \<open>match_score_loose\<close> the lazy
  \<^verbatim>\<open>.*?(\d)\/5\<close> before that. \<open>alt_match\<close> is \<^verbatim>\<open>line.match(...)\<close>: the leftmost
  start that matches, with captures 1, 2 and 3.
\<close>

definition dot_plus :: "jstring \<Rightarrow> jstring option" where
  "dot_plus s =
     (let g = takeWhile (\<lambda>c. \<not> is_line_terminator c) s in if g = [] then None else Some g)"

fun match_tail :: "jstring \<Rightarrow> jstring option" where
  "match_tail [] = None"
| "match_tail (c # cs) =
     (if is_white_space c
      then (case match_tail cs of Some g \<Rightarrow> Some g | None \<Rightarrow> dot_plus (c # cs))
      else dot_plus (c # cs))"

fun match_colon :: "jstring \<Rightarrow> jstring option" where
  "match_colon [] = None"
| "match_colon (c # cs) =
     (case (if c = 58 then match_tail cs else None) of
        Some g \<Rightarrow> Some g
      | None \<Rightarrow> if is_line_terminator c then None else match_colon cs)"

fun match_score_loose :: "jstring \<Rightarrow> (jstring \<times> jstring) option" where
  "match_score_loose [] = None"
| "match_score_loose (c # cs) =
     (case (if is_digit c
            then (case ci_prefix (js ''/5'') cs of
                    Some r \<Rightarrow> map_option (Pair [c]) (match_colon r)
                  | None \<Rightarrow> None)
            else None) of
        Some x \<Rightarrow> Some x
      | None \<Rightarrow> if is_line_terminator c then None else match_score_loose cs)"

definition alt_match_at :: "jstring \<Rightarrow> (jstring \<times> jstring \<times> jstring) option" where
  "alt_match_at s =
     (case match_name s of
        None \<Rightarrow> None
      | Some (nm, r) \<Rightarrow>
          (case match_score_loose r of
             None \<Rightarrow> None
           | Some (d, g) \<Rightarrow> Some (nm, d, g)))"

fun alt_match :: "jstring \<Rightarrow> (jstring \<times> jstring \<times> jstring) option" where
  "alt_match [] = alt_match_at []"
| "alt_match (c # cs) =
     (case alt_match_at (c # cs) of Some x \<Rightarrow> Some x | None \<Rightarrow> alt_match cs)"

text \<open>
  The line-by-line pass, run when the primary pass pushed fewer than four records.
  \<^verbatim>\<open>foundCriteria\<close> is the set of the names pushed so far, compared as strings.
\<close>

definition gap_fill_line ::
    "extractor_state \<times> jstring set \<Rightarrow> jstring \<Rightarrow> extractor_state \<times> jstring set" where
  "gap_fill_line sf line =
     (case alt_match line of
        None \<Rightarrow> sf
      | Some (nm, d, g) \<Rightarrow>
          if nm \<notin> snd sf
          then (push \<lparr>name = trim nm, score = parseFloat d, feedback = trim g\<rparr> (fst sf),
                insert (trim nm) (snd sf))
          else sf)"

definition gap_fill_pass :: "jstring \<Rightarrow> extractor_state \<Rightarrow> extractor_state" where
  "gap_fill_pass analysisText st =
     (if length (fst st) < 4
      then fst (foldl gap_fill_line (st, set (map name (fst st))) (split_lines analysisText))
      else st)"

text \<open>
  The last pass. \<^verbatim>\<open>required.toLowerCase()\<close> is applied to the four ASCII constants only,
  where it lower-cases the letters A to Z.
\<close>

definition lower_ascii :: "jstring \<Rightarrow> jstring" where
  "lower_ascii s = map (\<lambda>c. if 65 \<le> c \<and> c \<le> 90 then c + 32 else c) s"

text \<open>
  The pattern of this pass is built from a template literal, in which the escapes
  \<^verbatim>\<open>\d\<close> and \<^verbatim>\<open>\/\<close> stand for the characters \<^verbatim>\<open>d\<close> and \<^verbatim>\<open>/\<close>: the expression is
  \<^verbatim>\<open>/content[^]*?(d)/5/i\<close> for Content, and so on. \<open>find_d5\<close> is \<^verbatim>\<open>[^]*?(d)/5\<close>, lazy,
  with its capture; \<open>default_match\<close> is \<^verbatim>\<open>analysisText.match(pattern)\<close>, the leftmost
  start that matches, with capture 1.
\<close>

fun find_d5 :: "jstring \<Rightarrow> jstring option" where
  "find_d5 [] = None"
| "find_d5 (c # cs) =
     (case ci_prefix (js ''d/5'') (c # cs) of
        Some r \<Rightarrow> Some [c]
      | None \<Rightarrow> find_d5 cs)"

definition default_match_at :: "jstring \<Rightarrow> jstring \<Rightarrow> jstring option" where
  "default_match_at pat s =
     (case ci_prefix pat s of None \<Rightarrow> None | Some r \<Rightarrow> find_d5 r)"

fun default_match :: "jstring \<Rightarrow> jstring \<Rightarrow> jstring option" where
  "default_match pat [] = default_match_at pat []"
| "default_match pat (c # cs) =
     (case default_match_at pat (c # cs) of
        Some g \<Rightarrow> Some g
      | None \<Rightarrow> default_match pat cs)"

definition default_feedback :: "jstring \<Rightarrow> jstring" where
  "default_feedback required =
     js ''Assessment provided. Please refer to the full analysis above for detailed feedback on ''
       @ lower_ascii required @ js ''.''"

definition default_criterion :: "jstring \<Rightarrow> jstring \<Rightarrow> Criterion" where
  "default_criterion analysisText required =
     \<lparr>name = required,
      score = (case default_match (lower_ascii required) analysisText of
                 Some g \<Rightarrow> parseFloat g
               | None \<Rightarrow> Num 3),
      feedback = default_feedback required\<rparr>"

text \<open>\<^verbatim>\<open>foundNames\<close> is computed once, before the loop over the required names.\<close>

definition default_fill_pass :: "jstring \<Rightarrow> extractor_state \<Rightarrow> extractor_state" where
  "default_fill_pass analysisText st =
     (let foundNames = map name (fst st) in
      foldl (\<lambda>st' required.
               if required \<notin> set foundNames
               then push (default_criterion analysisText required) st'
               else st')
        st requiredCriteria)"

text \<open>
  The comparator is \<^verbatim>\<open>(sortOrder[a.name] || 999) - (sortOrder[b.name] || 999)\<close>.
  \<open>sort_rank\<close> is one of its operands: the entry of \<^verbatim>\<open>sortOrder\<close>, and 999 when the
  entry is missing or falsy, that is, zero. The sort is stable, as \<^verbatim>\<open>Array.prototype.sort\<close>
  is.
\<close>

definition sortOrder :: "(jstring \<times> nat) list" where
  "sortOrder =
     [(js ''Content'', 0), (js ''Communicative Achievement'', 1), (js ''Organisation'', 2),
      (js ''Language'', 3)]"

definition sort_rank :: "jstring \<Rightarrow> nat" where
  "sort_rank nm =
     (case map_of sortOrder nm of
        None \<Rightarrow> 999
      | Some v \<Rightarrow> if v = 0 then 999 else v)"

definition sort_criteria :: "Criterion list \<Rightarrow> Criterion list" where
  "sort_criteria cs = sort_key (\<lambda>c. sort_rank (name c)) cs"

definition extract_criteria :: "jstring \<Rightarrow> extractor_state" where
  "extract_criteria analysisText =
     (case default_fill_pass analysisText (gap_fill_pass analysisText (primary_pass analysisText))
      of (cs, overall) \<Rightarrow> (sort_criteria cs, overall))"

subsection \<open>Decoded values\<close>

text \<open>
  What \<^verbatim>\<open>JSON.parse\<close> returns: the array \<^verbatim>\<open>errors\<close> has the type \<^verbatim>\<open>any[]\<close>, so its
  elements are arbitrary decoded values. An object is the list of its properties in their
  order. Numbers are finite and kept exact; no claim depends on the value of a decoded
  number other than on its being zero or not.
\<close>

datatype json =
    JNull
  | JBool bool
  | JNum rat
  | JStr jstring
  | JArr "json list"
  | JObj "(jstring \<times> json) list"

datatype js_error = SyntaxError | TypeError

text \<open>\<^verbatim>\<open>Boolean(v)\<close>.\<close>

fun truthy :: "json \<Rightarrow> bool" where
  "truthy JNull = False"
| "truthy (JBool b) = b"
| "truthy (JNum q) = (q \<noteq> 0)"
| "truthy (JStr s) = (s \<noteq> [])"
| "truthy (JArr xs) = True"
| "truthy (JObj kvs) = True"

text \<open>
  The property reads \<^verbatim>\<open>e.type\<close> and \<^verbatim>\<open>e.text\<close>, with \<open>None\<close> for
  \<^verbatim>\<open>undefined\<close>: of the decoded values only an object has such a property.
\<close>

fun get_prop :: "json \<Rightarrow> jstring \<Rightarrow> json option" where
  "get_prop (JObj kvs) k = map_of kvs k"
| "get_prop _ k = None"

definition truthy_opt :: "json option \<Rightarrow> bool" where
  "truthy_opt v = (case v of None \<Rightarrow> False | Some x \<Rightarrow> truthy x)"

text \<open>
  \<^verbatim>\<open>{ ...e, k: v }\<close> for an object \<^verbatim>\<open>e\<close>: the property is replaced where it stands or
  added at the end. Both spreads of the function are reached by objects only (the value
  has a \<^verbatim>\<open>type\<close>, or a \<^verbatim>\<open>text\<close>), so other values are left as they are.
\<close>

fun set_prop :: "jstring \<Rightarrow> json \<Rightarrow> json \<Rightarrow> json" where
  "set_prop k v (JObj kvs) = JObj (AList.update k v kvs)"
| "set_prop k v e = e"

subsection \<open>The error locator\<close>

text \<open>
  \<^verbatim>\<open>errorsText.match(/\[[\s\S]*?\]/g)\<close>: \<open>upto_close\<close> is the lazy \<^verbatim>\<open>[\s\S]*?\]\<close>, the
  shortest text that ends with a closing bracket; \<open>error_fragments\<close> lists the matches from
  left to right, each search starting where the last match ended. An empty list stands
  for \<^verbatim>\<open>null\<close>.
\<close>

fun upto_close :: "jstring \<Rightarrow> (jstring \<times> jstring) option" where
  "upto_close [] = None"
| "upto_close (c # cs) =
     (if c = 93 then Some ([c], cs)
      else (case upto_close cs of None \<Rightarrow> None | Some (b, r) \<Rightarrow> Some (c # b, r)))"

lemma upto_close_length: "upto_close s = Some (b, r) \<Longrightarrow> length r < length s"
  by (induction s arbitrary: b r) (auto split: if_splits option.splits)

function error_fragments :: "jstring \<Rightarrow> jstring list" where
  "error_fragments [] = []"
| "error_fragments (c # cs) =
     (if c = 91
      then (case upto_close cs of
              Some (b, r) \<Rightarrow> (c # b) # error_fragments r
            | None \<Rightarrow> error_fragments cs)
      else error_fragments cs)"
  by pat_completeness auto
termination
  by (relation "measure length") (auto dest: upto_close_length)

text \<open>
  \<^verbatim>\<open>errorMatches.map(jsonStr => { try { return JSON.parse(jsonStr) } catch { return null } })
  .filter(Boolean).flat()\<close>. \<open>flat1\<close> is what \<^verbatim>\<open>flat()\<close> does with one element.
\<close>

definition parse_or_null :: "(jstring \<Rightarrow> js_error + json) \<Rightarrow> jstring \<Rightarrow> json" where
  "parse_or_null JSON_parse jsonStr =
     (case JSON_parse jsonStr of Inl x \<Rightarrow> JNull | Inr v \<Rightarrow> v)"

fun flat1 :: "json \<Rightarrow> json list" where
  "flat1 (JArr xs) = xs"
| "flat1 v = [v]"

definition decode_fragments :: "(jstring \<Rightarrow> js_error + json) \<Rightarrow> jstring list \<Rightarrow> json list" where
  "decode_fragments JSON_parse errorMatches =
     concat (map flat1 (filter truthy (map (parse_or_null JSON_parse) errorMatches)))"

text \<open>\<^verbatim>\<open>e && e.type === 'register' ? { ...e, type: 'style' } : e\<close>.\<close>

definition recategorize :: "json \<Rightarrow> json" where
  "recategorize e =
     (if truthy e \<and> get_prop e (js ''type'') = Some (JStr (js ''register''))
      then set_prop (js ''type'') (JStr (js ''style'')) e
      else e)"

text \<open>
  The mask \<^verbatim>\<open>usedRanges\<close>. \<open>any_used\<close> is \<^verbatim>\<open>usedRanges.slice(i, i + n).some(Boolean)\<close>;
  the slice stops at the end of the array. \<open>set_used\<close> is \<^verbatim>\<open>usedRanges[j] = true\<close>: an
  index past the end extends the array, and the holes it leaves count as unused.
\<close>

definition any_used :: "bool list \<Rightarrow> nat \<Rightarrow> nat \<Rightarrow> bool" where
  "any_used usedRanges i n \<longleftrightarrow> True \<in> set (take n (drop i usedRanges))"

definition set_used :: "nat \<Rightarrow> bool list \<Rightarrow> bool list" where
  "set_used j usedRanges =
     (if j < length usedRanges then usedRanges[j := True]
      else usedRanges @ replicate (j - length usedRanges) False @ [True])"

definition mark_used :: "nat \<Rightarrow> nat \<Rightarrow> bool list \<Rightarrow> bool list" where
  "mark_used i n usedRanges = foldl (\<lambda>u j. set_used j u) usedRanges [i..<i + n]"

text \<open>
  The search loop \<^verbatim>\<open>for (let i = 0; i <= normWriting.length - normError.length; i++)\<close>,
  from \<open>i\<close> on: the first offset where the text stands and no unit is used.
\<close>

function find_from :: "jstring \<Rightarrow> jstring \<Rightarrow> bool list \<Rightarrow> nat \<Rightarrow> nat option" where
  "find_from normWriting normError usedRanges i =
     (if i + length normError \<le> length normWriting
      then (if substring normWriting i (i + length normError) = normError
               \<and> \<not> any_used usedRanges i (length normError)
            then Some i
            else find_from normWriting normError usedRanges (i + 1))
      else None)"
  by pat_completeness auto
termination
  by (relation "measure (\<lambda>(w, e, u, i). Suc (length w) - i)") auto

declare find_from.simps [simp del]

text \<open>
  The callback of the second \<^verbatim>\<open>errors.map\<close>, with the mask passed through. A truthy
  \<^verbatim>\<open>e.text\<close> that is not a string has no \<^verbatim>\<open>toLowerCase\<close>: the call throws a TypeError.
\<close>

definition with_span :: "json \<Rightarrow> nat \<Rightarrow> nat \<Rightarrow> json" where
  "with_span e start end' =
     set_prop (js ''end'') (JNum (of_nat end')) (set_prop (js ''start'') (JNum (of_nat start)) e)"

definition locate_one ::
    "(jstring \<Rightarrow> jstring) \<Rightarrow> jstring \<Rightarrow> bool list \<Rightarrow> json \<Rightarrow> js_error + (bool list \<times> json)" where
  "locate_one toLowerCase writing usedRanges e =
     (if \<not> truthy e \<or> \<not> truthy_opt (get_prop e (js ''text'')) then Inr (usedRanges, e)
      else (case get_prop e (js ''text'') of
              Some (JStr t) \<Rightarrow>
                (let normWriting = toLowerCase writing; normError = toLowerCase t in
                 case find_from normWriting normError usedRanges 0 of
                   Some i \<Rightarrow>
                     Inr (mark_used i (length normError) usedRanges,
                          with_span e i (i + length t))
                 | None \<Rightarrow> Inr (usedRanges, e))
            | _ \<Rightarrow> Inl TypeError))"

fun locate_all ::
    "(jstring \<Rightarrow> jstring) \<Rightarrow> jstring \<Rightarrow> bool list \<Rightarrow> json list
      \<Rightarrow> js_error + (bool list \<times> json list)" where
  "locate_all toLowerCase writing usedRanges [] = Inr (usedRanges, [])"
| "locate_all toLowerCase writing usedRanges (e # es) =
     (case locate_one toLowerCase writing usedRanges e of
        Inl x \<Rightarrow> Inl x
      | Inr (u, e') \<Rightarrow>
          (case locate_all toLowerCase writing u es of
             Inl x \<Rightarrow> Inl x
           | Inr (u', es') \<Rightarrow> Inr (u', e' # es')))"

subsection \<open>The parser\<close>

text \<open>
  The split at the first \<^verbatim>\<open>ERRORS:\<close>: the text before the marker, and the text from
  the marker on (empty when there is none).
\<close>

definition split_output :: "jstring \<Rightarrow> jstring \<times> jstring" where
  "split_output output =
     (case indexOf output (js ''ERRORS:'') of
        Some k \<Rightarrow> (substring output 0 k, drop k output)
      | None \<Rightarrow> (output, []))"

text \<open>
  The body of the outer \<^verbatim>\<open>try\<close>, run from \<^verbatim>\<open>errors = []\<close>. \<open>Inr\<close> is the value of
  \<^verbatim>\<open>errors\<close> at its end; \<open>Inl\<close> is an exception together with the value \<^verbatim>\<open>errors\<close> has
  when it is thrown: the array of the first \<^verbatim>\<open>map\<close>, since the assignment of the second
  one is never reached.
\<close>

definition errors_try ::
    "(jstring \<Rightarrow> js_error + json) \<Rightarrow> (jstring \<Rightarrow> jstring) \<Rightarrow> jstring \<Rightarrow> jstring
      \<Rightarrow> (js_error \<times> json list) + json list" where
  "errors_try JSON_parse toLowerCase errorsText writing =
     (case error_fragments errorsText of
        [] \<Rightarrow> Inr []
      | m # ms \<Rightarrow>
          (let errors1 = map recategorize (decode_fragments JSON_parse (m # ms)) in
           case locate_all toLowerCase writing (replicate (length writing) False) errors1 of
             Inl x \<Rightarrow> Inl (x, errors1)
           | Inr (u, errors2) \<Rightarrow> Inr errors2))"

text \<open>\<^verbatim>\<open>if (errorsText) { try { ... } catch (e) { console.log(...) } }\<close>: the handler
  only logs.\<close>

definition errors_section ::
    "(jstring \<Rightarrow> js_error + json) \<Rightarrow> (jstring \<Rightarrow> jstring) \<Rightarrow> jstring \<Rightarrow> jstring
      \<Rightarrow> js_error + json list" where
  "errors_section JSON_parse toLowerCase errorsText writing =
     (if errorsText = [] then Inr []
      else (case errors_try JSON_parse toLowerCase errorsText writing of
              Inl (x, errs) \<Rightarrow> Inr errs
            | Inr errs \<Rightarrow> Inr errs))"

record AnalysisResult =
  overallScore :: jsnum
  criteria :: "Criterion list"
  errors :: "json list"

text \<open>The function itself; \<open>Inl\<close> would be an exception that leaves it.\<close>

definition parseAnalysisOutput ::
    "(jstring \<Rightarrow> js_error + json) \<Rightarrow> (jstring \<Rightarrow> jstring) \<Rightarrow> jstring \<Rightarrow> jstring
      \<Rightarrow> js_error + AnalysisResult" where
  "parseAnalysisOutput JSON_parse toLowerCase output writing =
     (case split_output output of
        (analysisText, errorsText) \<Rightarrow>
          (case errors_section JSON_parse toLowerCase errorsText writing of
             Inl x \<Rightarrow> Inl x
           | Inr errs \<Rightarrow>
               (case extract_criteria analysisText of
                  (cs, overall) \<Rightarrow>
                    Inr \<lparr>overallScore =
                           (if length cs > 0 then Math_round (js_div overall (length cs))
                            else Num 3),
                         criteria = cs,
                         errors = errs\<rparr>)))"

subsection \<open>Stand-ins for the platform, used in the examples\<close>

text \<open>
  The theorems below hold for every \<^verbatim>\<open>JSON.parse\<close> and \<^verbatim>\<open>toLowerCase\<close>. The
  examples need the values of the two at particular texts. \<open>toLowerCase_sample\<close> is
  \<^verbatim>\<open>toLowerCase\<close> on strings of ASCII characters and U+0130 (capital I with dot above,
  whose lower case is the two units U+0069 U+0307); other units are passed through, which
  is not what the platform does with other capital letters. \<open>JSON_parse_sample\<close> reads the
  JSON grammar: white space, the three literals, numbers, strings with their escapes, arrays
  and objects (a repeated key keeps its place and takes the last value).
\<close>

definition toLowerCase_sample :: "jstring \<Rightarrow> jstring" where
  "toLowerCase_sample s =
     concat (map (\<lambda>c. if 65 \<le> c \<and> c \<le> 90 then [c + 32]
                       else if c = 304 then [105, 775] else [c]) s)"

definition skip_ws :: "jstring \<Rightarrow> jstring" where
  "skip_ws s = dropWhile (\<lambda>c. c = 32 \<or> c = 9 \<or> c = 10 \<or> c = 13) s"

definition hex_value :: "nat \<Rightarrow> nat option" where
  "hex_value c =
     (if 48 \<le> c \<and> c \<le> 57 then Some (c - 48)
      else if 97 \<le> c \<and> c \<le> 102 then Some (c - 87)
      else if 65 \<le> c \<and> c \<le> 70 then Some (c - 55)
      else None)"

text \<open>The rest of a string literal, after its opening quote.\<close>

fun json_string :: "jstring \<Rightarrow> (jstring \<times> jstring) option" where
  "json_string [] = None"
| "json_string [c] = (if c = 34 then Some ([], []) else None)"
| "json_string (c # d # cs) =
     (if c = 34 then Some ([], d # cs)
      else if c < 32 then None
      else if c = 92 then
        (if d = 117 then
           (case cs of
              h1 # h2 # h3 # h4 # r \<Rightarrow>
                (case (hex_value h1, hex_value h2, hex_value h3, hex_value h4) of
                   (Some a, Some b, Some x, Some y) \<Rightarrow>
                     map_option (\<lambda>(t, r'). ((a * 4096 + b * 256 + x * 16 + y) # t, r'))
                       (json_string r)
                 | _ \<Rightarrow> None)
            | _ \<Rightarrow> None)
         else
           (case map_of [(34, 34), (92, 92), (47, 47), (98, 8), (102, 12), (110, 10),
                         (114, 13), (116, 9)] d of
              Some u \<Rightarrow> map_option (\<lambda>(t, r'). (u # t, r')) (json_string cs)
            | None \<Rightarrow> None))
      else map_option (\<lambda>(t, r'). (c # t, r')) (json_string (d # cs)))"

text \<open>A number: \<^verbatim>\<open>-? int frac? exp?\<close>, with its exact value.\<close>

definition json_fraction :: "jstring \<Rightarrow> (rat \<times> jstring) option" where
  "json_fraction s =
     (case s of
        [] \<Rightarrow> Some (0, [])
      | c # r \<Rightarrow>
          if c = 46 then
            (let fp = takeWhile is_digit r in
             if fp = [] then None
             else Some (of_nat (digits_value fp) / 10 ^ length fp, dropWhile is_digit r))
          else Some (0, s))"

definition json_exponent :: "jstring \<Rightarrow> (rat \<times> jstring) option" where
  "json_exponent s =
     (case s of
        [] \<Rightarrow> Some (1, [])
      | c # r \<Rightarrow>
          if c = 101 \<or> c = 69 then
            (let neg = (case r of [] \<Rightarrow> False | x # _ \<Rightarrow> x = 45);
                 r' = (case r of [] \<Rightarrow> [] | x # y \<Rightarrow> if x = 45 \<or> x = 43 then y else r);
                 ep = takeWhile is_digit r' in
             if ep = [] then None
             else Some (if neg then 1 / 10 ^ digits_value ep else 10 ^ digits_value ep,
                        dropWhile is_digit r'))
          else Some (1, s))"

definition json_number :: "jstring \<Rightarrow> (rat \<times> jstring) option" where
  "json_number s =
     (let neg = (case s of [] \<Rightarrow> False | x # _ \<Rightarrow> x = 45);
          s1 = (if neg then tl s else s);
          ip = takeWhile is_digit s1 in
      if ip = [] \<or> (1 < length ip \<and> hd ip = 48) then None
      else (case json_fraction (dropWhile is_digit s1) of
              None \<Rightarrow> None
            | Some (f, r) \<Rightarrow>
                (case json_exponent r of
                   None \<Rightarrow> None
                 | Some (e, r') \<Rightarrow>
                     Some ((if neg then - 1 else 1) * (of_nat (digits_value ip) + f) * e, r'))))"

text \<open>
  A value, the elements of an array after its opening bracket, and the members of an
  object after its opening brace. The first argument bounds the depth of the calls; the
  length of the text is enough, since every call reads at least one unit.
\<close>

fun json_value :: "nat \<Rightarrow> jstring \<Rightarrow> (json \<times> jstring) option"
  and json_elements :: "nat \<Rightarrow> jstring \<Rightarrow> (json list \<times> jstring) option"
  and json_members :: "nat \<Rightarrow> jstring \<Rightarrow> ((jstring \<times> json) list \<times> jstring) option" where
  "json_value 0 s = None"
| "json_value (Suc n) s =
     (case skip_ws s of
        [] \<Rightarrow> None
      | c # cs \<Rightarrow>
          if c = 91 then
            (case skip_ws cs of
               [] \<Rightarrow> None
             | d # r \<Rightarrow>
                 if d = 93 then Some (JArr [], skip_ws r)
                 else map_option (\<lambda>(vs, r'). (JArr vs, skip_ws r')) (json_elements n cs))
          else if c = 123 then
            (case skip_ws cs of
               [] \<Rightarrow> None
             | d # r \<Rightarrow>
                 if d = 125 then Some (JObj [], skip_ws r)
                 else map_option
                        (\<lambda>(kvs, r').
                           (JObj (foldl (\<lambda>m (k, v). AList.update k v m) [] kvs), skip_ws r'))
                        (json_members n cs))
          else if c = 34 then
            map_option (\<lambda>(t, r). (JStr t, skip_ws r)) (json_string cs)
          else if take 4 (c # cs) = js ''true'' then Some (JBool True, skip_ws (drop 3 cs))
          else if take 5 (c # cs) = js ''false'' then Some (JBool False, skip_ws (drop 4 cs))
          else if take 4 (c # cs) = js ''null'' then Some (JNull, skip_ws (drop 3 cs))
          else map_option (\<lambda>(q, r). (JNum q, skip_ws r)) (json_number (c # cs)))"
| "json_elements 0 s = None"
| "json_elements (Suc n) s =
     (case json_value n s of
        None \<Rightarrow> None
      | Some (v, r) \<Rightarrow>
          (case r of
             [] \<Rightarrow> None
           | c # r' \<Rightarrow>
               if c = 93 then Some ([v], r')
               else if c = 44 then
                 map_option (\<lambda>(vs, r''). (v # vs, r'')) (json_elements n r')
               else None))"
| "json_members 0 s = None"
| "json_members (Suc n) s =
     (case skip_ws s of
        [] \<Rightarrow> None
      | q # s' \<Rightarrow>
          if q \<noteq> 34 then None
          else (case json_string s' of
                  None \<Rightarrow> None
                | Some (k, r0) \<Rightarrow>
                    (case skip_ws r0 of
                       [] \<Rightarrow> None
                     | colon # r1 \<Rightarrow>
                         if colon \<noteq> 58 then None
                         else (case json_value n r1 of
                                 None \<Rightarrow> None
                               | Some (v, r) \<Rightarrow>
                                   (case r of
                                      [] \<Rightarrow> None
                                    | c # r' \<Rightarrow>
                                        if c = 125 then Some ([(k, v)], r')
                                        else if c = 44 then
                                          map_option (\<lambda>(kvs, r''). ((k, v) # kvs, r''))
                                            (json_members n r')
                                        else None)))))"

definition JSON_parse_sample :: "jstring \<Rightarrow> js_error + json" where
  "JSON_parse_sample s =
     (case json_value (Suc (length s)) s of
        None \<Rightarrow> Inl SyntaxError
      | Some (v, r) \<Rightarrow> if r = [] then Inr v else Inl SyntaxError)"

subsection \<open>Notions of the statements\<close>

text \<open>
  The decoded records of an output, in their order: the value of \<^verbatim>\<open>errors\<close> after
  \<^verbatim>\<open>.flat()\<close>, before the categories are rewritten and the spans are attached.
\<close>

definition decoded_errors :: "(jstring \<Rightarrow> js_error + json) \<Rightarrow> jstring \<Rightarrow> json list" where
  "decoded_errors JSON_parse output =
     decode_fragments JSON_parse (error_fragments (snd (split_output output)))"





text \<open>
  A record carries a located span when its \<^verbatim>\<open>start\<close> and \<^verbatim>\<open>end\<close> are numbers: the
  test \<^verbatim>\<open>typeof e.start === 'number' && typeof e.end === 'number'\<close> of the highlighter,
  which reads the spans. Two half-open ranges overlap as the highlighter tests it:
  \<^verbatim>\<open>start < r.end && end > r.start\<close>.
\<close>

definition located_span :: "json \<Rightarrow> (rat \<times> rat) option" where
  "located_span e =
     (case (get_prop e (js ''start''), get_prop e (js ''end'')) of
        (Some (JNum s), Some (JNum t)) \<Rightarrow> Some (s, t)
      | _ \<Rightarrow> None)"


text \<open>
  The condition of the search loop at the offset \<open>i\<close>: the lower-cased text stands there in
  the lower-cased submission and none of its units is marked in the mask.
\<close>

definition unused_occurrence ::
    "(jstring \<Rightarrow> jstring) \<Rightarrow> jstring \<Rightarrow> bool list \<Rightarrow> jstring \<Rightarrow> nat \<Rightarrow> bool" where
  "unused_occurrence toLowerCase writing usedRanges t i \<longleftrightarrow>
     i + length (toLowerCase t) \<le> length (toLowerCase writing)
     \<and> substring (toLowerCase writing) i (i + length (toLowerCase t)) = toLowerCase t
     \<and> \<not> any_used usedRanges i (length (toLowerCase t))"

text \<open>The offsets that a mask marks as used.\<close>

definition used_set :: "bool list \<Rightarrow> nat set" where
  "used_set u = {j. j < length u \<and> u ! j}"

text \<open>
  The criteria in the order in which the three passes push them, before the sort: the
  order in which \<^verbatim>\<open>overallScore += score\<close> adds their scores.
\<close>

definition found_criteria :: "jstring \<Rightarrow> Criterion list" where
  "found_criteria output =
     fst (default_fill_pass (fst (split_output output))
            (gap_fill_pass (fst (split_output output))
               (primary_pass (fst (split_output output)))))"

text \<open>The value of a score that is a number.\<close>

fun num_value :: "jsnum \<Rightarrow> rat" where
  "num_value (Num q) = q"
| "num_value NaN = 0"
| "num_value PosInf = 0"
| "num_value NegInf = 0"

text \<open>
  A double: a significand of at most 53 binary digits times a power of two that is at
  least \<open>2 ^ (- 1074)\<close>, below \<open>2 ^ 1024\<close> in absolute value.
\<close>

definition representable :: "rat \<Rightarrow> bool" where
  "representable q \<longleftrightarrow>
     (\<exists>m k. q = of_int m * power_int 2 k \<and> \<bar>m\<bar> < 2 ^ 53 \<and> - 1074 \<le> k) \<and> \<bar>q\<bar> < 2 ^ 1024"

text \<open>
  Two invariants of the extractor's state: the sum is the sum of the scores pushed, added
  one by one in the order of the list, and every score pushed is \<^verbatim>\<open>NaN\<close> or lies between
  0 and 9.9 as the platform compares numbers, \<^verbatim>\<open>0 <= x && x <= 9.9\<close>.
\<close>

definition sum_invariant :: "extractor_state \<Rightarrow> bool" where
  "sum_invariant st \<longleftrightarrow> snd st = foldl js_add (Num 0) (map score (fst st))"

definition score_in_range :: "jsnum \<Rightarrow> bool" where
  "score_in_range x \<longleftrightarrow> x = NaN \<or> (js_le (Num 0) x \<and> js_le x (fp64 (99 / 10)))"

definition scores_in_range :: "extractor_state \<Rightarrow> bool" where
  "scores_in_range st \<longleftrightarrow> (\<forall>c\<in>set (fst st). score_in_range (score c))"

section \<open>Properties\<close>

text \<open>The definitions that a concrete run unfolds.\<close>

lemma floor_rat_numeral:
  "\<lfloor>(numeral a :: rat) / numeral b\<rfloor> = numeral a div numeral b"
  by (metis floor_divide_of_int_eq of_int_numeral)

lemma ceiling_rat_numeral:
  "\<lceil>(numeral a :: rat) / numeral b\<rceil> = - (- numeral a div numeral b)"
  unfolding ceiling_def
  by (metis floor_divide_of_int_eq of_int_numeral of_int_minus minus_divide_left)

lemma floor_rat_one: "\<lfloor>(1 :: rat) / numeral b\<rfloor> = 1 div numeral b"
  by (metis floor_divide_of_int_eq of_int_1 of_int_numeral)

lemma ceiling_rat_one: "\<lceil>(1 :: rat) / numeral b\<rceil> = - (- 1 div numeral b)"
  unfolding ceiling_def
  by (metis floor_divide_of_int_eq of_int_1 of_int_numeral of_int_minus minus_divide_left)

lemmas number_defs = fp64_def nearest_def ulp_def ilog2_def round_half_even_def bits.simps
  floor_rat_numeral ceiling_rat_numeral floor_rat_one ceiling_rat_one

lemmas string_defs = js_def is_digit_def is_white_space_def is_line_terminator_def
  canonicalize_def ci_eq_def trim_def substring_def lower_ascii_def

lemmas extractor_defs = requiredCriteria_def match_name_def match_score_def match_header_def
  primary_at_def primary_pass_def push_def parseFloat_def dot_plus_def alt_match_at_def
  gap_fill_line_def gap_fill_pass_def default_match_at_def default_criterion_def
  default_fill_pass_def sortOrder_def sort_rank_def sort_criteria_def extract_criteria_def
  number_defs

lemmas locator_defs = truthy_opt_def parse_or_null_def decode_fragments_def recategorize_def
  any_used_def set_used_def mark_used_def with_span_def locate_one_def find_from.simps

lemmas parser_defs = split_output_def errors_try_def errors_section_def parseAnalysisOutput_def

lemmas sample_defs = toLowerCase_sample_def skip_ws_def hex_value_def json_fraction_def
  json_exponent_def json_number_def JSON_parse_sample_def

subsection \<open>Rounding to a double\<close>

text \<open>
  The rounded value of a positive number lies between any two doubles that enclose the
  number, and a double is its own rounded value.
\<close>

lemma bits_nonneg: "0 \<le> bits n"
proof (induction n rule: bits.induct)
  case (1 n)
  then show ?case by (subst bits.simps) simp
qed

lemma bits_pos: "0 < n \<Longrightarrow> 1 \<le> bits n"
  using bits_nonneg[of "n div 2"] by (subst bits.simps) simp

lemma bits_bounds: "0 < n \<Longrightarrow> 2 ^ nat (bits n - 1) \<le> n \<and> n < 2 ^ nat (bits n)"
proof (induction n rule: bits.induct)
  case (1 n)
  have eq: "bits n = 1 + bits (n div 2)"
    using "1.prems" by (subst bits.simps) simp
  show ?case
  proof (cases "n = 1")
    case True
    have "bits 1 = 1" by (simp add: bits.simps)
    with True show ?thesis by simp
  next
    case False
    with "1.prems" have pos: "0 < n div 2" by simp
    with "1.prems" "1.IH" have
      IH: "2 ^ nat (bits (n div 2) - 1) \<le> n div 2" "n div 2 < 2 ^ nat (bits (n div 2))"
      by simp_all
    from bits_pos[OF pos] have b: "1 \<le> bits (n div 2)" .
    then have suc: "nat (bits (n div 2)) = Suc (nat (bits (n div 2) - 1))" by simp
    have "(2 :: int) ^ nat (bits (n div 2)) = 2 * 2 ^ nat (bits (n div 2) - 1)"
      by (subst suc) simp
    also have "\<dots> \<le> 2 * (n div 2)" using IH(1) by simp
    also have "\<dots> \<le> n" by simp
    finally have lower: "2 ^ nat (bits n - 1) \<le> n" by (simp add: eq)
    have "nat (bits n) = Suc (nat (bits (n div 2)))" using b by (simp add: eq)
    then have "(2 :: int) ^ nat (bits n) = 2 * 2 ^ nat (bits (n div 2))" by simp
    moreover have "n < 2 * (n div 2 + 1)" by simp
    moreover have "n div 2 + 1 \<le> 2 ^ nat (bits (n div 2))" using IH(2) by simp
    ultimately have "n < 2 ^ nat (bits n)" by linarith
    with lower show ?thesis by simp
  qed
qed

lemma power_int_nat: "0 \<le> k \<Longrightarrow> power_int (x :: rat) k = x ^ nat k"
  by (simp add: power_int_def)

lemma ilog2_bounds:
  assumes "0 < a"
  shows "power_int 2 (ilog2 a) \<le> a" and "a < power_int 2 (ilog2 a + 1)"
proof -
  have "power_int 2 (ilog2 a) \<le> a \<and> a < power_int 2 (ilog2 a + 1)"
  proof (cases "1 \<le> a")
    case True
    define N where "N = \<lfloor>a\<rfloor>"
    from True have N: "1 \<le> N" unfolding N_def by simp
    then have "0 < N" by simp
    from bits_bounds[OF this] have b: "2 ^ nat (bits N - 1) \<le> N" "N < 2 ^ nat (bits N)"
      by simp_all
    from bits_pos[OF \<open>0 < N\<close>] have p: "1 \<le> bits N" .
    have e: "ilog2 a = bits N - 1" using True by (simp add: ilog2_def N_def)
    have "power_int (2 :: rat) (bits N - 1) = 2 ^ nat (bits N - 1)"
      using p by (simp add: power_int_nat)
    also have "\<dots> = of_int (2 ^ nat (bits N - 1))" by simp
    also have "\<dots> \<le> of_int N" using b(1) by (simp only: of_int_le_iff)
    also have "\<dots> \<le> a" unfolding N_def by simp
    finally have lower: "power_int 2 (ilog2 a) \<le> a" by (simp add: e)
    have "a < of_int (N + 1)" unfolding N_def by linarith
    also have "\<dots> \<le> of_int (2 ^ nat (bits N))" using b(2) by (simp only: of_int_le_iff)
    also have "\<dots> = (2 :: rat) ^ nat (bits N)" by simp
    also have "\<dots> = power_int 2 (bits N)" using p by (simp add: power_int_nat)
    finally have "a < power_int 2 (ilog2 a + 1)" by (simp add: e)
    with lower show ?thesis by simp
  next
    case False
    define M where "M = \<lceil>1 / a\<rceil> - 1"
    from False assms have x: "1 < 1 / a" by simp
    then have "2 \<le> \<lceil>1 / a\<rceil>" by linarith
    then have M: "0 < M" unfolding M_def by simp
    have Mx: "of_int M < 1 / a" "1 / a \<le> of_int M + 1" unfolding M_def by linarith+
    from bits_bounds[OF M] have b: "2 ^ nat (bits M - 1) \<le> M" "M < 2 ^ nat (bits M)"
      by simp_all
    from bits_pos[OF M] have p: "1 \<le> bits M" .
    have e: "ilog2 a = - bits M" using False by (simp add: ilog2_def M_def)
    have "1 / a \<le> of_int (M + 1)" using Mx(2) by simp
    also have "\<dots> \<le> of_int (2 ^ nat (bits M))" using b(2) by (simp only: of_int_le_iff)
    also have "\<dots> = (2 :: rat) ^ nat (bits M)" by simp
    finally have "1 / a \<le> 2 ^ nat (bits M)" .
    with assms have "1 / 2 ^ nat (bits M) \<le> a"
      by (simp add: field_simps)
    moreover have "power_int (2 :: rat) (- bits M) = 1 / 2 ^ nat (bits M)"
      using p by (simp add: power_int_def field_simps)
    ultimately have lower: "power_int 2 (ilog2 a) \<le> a" by (simp add: e)
    have "(2 :: rat) ^ nat (bits M - 1) = of_int (2 ^ nat (bits M - 1))" by simp
    also have "\<dots> \<le> of_int M" using b(1) by (simp only: of_int_le_iff)
    also have "\<dots> < 1 / a" using Mx(1) .
    finally have "2 ^ nat (bits M - 1) < 1 / a" .
    with assms have up: "a < 1 / 2 ^ nat (bits M - 1)"
      by (simp add: field_simps)
    have "power_int (2 :: rat) (- bits M + 1) = 1 / 2 ^ nat (bits M - 1)"
    proof (cases "bits M = 1")
      case True
      then show ?thesis by simp
    next
      case False
      with p have "- bits M + 1 < 0" by simp
      moreover have "nat (- (- bits M + 1)) = nat (bits M - 1)" by simp
      ultimately show ?thesis by (simp add: power_int_def field_simps)
    qed
    with up have "a < power_int 2 (ilog2 a + 1)" by (simp add: e)
    with lower show ?thesis by simp
  qed
  then show "power_int 2 (ilog2 a) \<le> a" and "a < power_int 2 (ilog2 a + 1)" by simp_all
qed

lemma round_half_even_le: "x \<le> of_int j \<Longrightarrow> round_half_even x \<le> j"
proof -
  assume le: "x \<le> of_int j"
  show ?thesis
  proof (cases "x = of_int j")
    case True
    then show ?thesis by (simp add: round_half_even_def)
  next
    case False
    with le have "x < of_int j" by simp
    then have "\<lfloor>x\<rfloor> < j" by (simp add: floor_less_iff)
    then show ?thesis by (simp add: round_half_even_def)
  qed
qed

lemma round_half_even_ge: "of_int j \<le> x \<Longrightarrow> j \<le> round_half_even x"
proof -
  assume "of_int j \<le> x"
  then have "j \<le> \<lfloor>x\<rfloor>" by (simp add: le_floor_iff)
  then show ?thesis by (simp add: round_half_even_def)
qed

lemma ulp_pos: "0 < ulp a"
  by (simp add: ulp_def zero_less_power_int)

lemma power_int_split:
  "power_int (2 :: rat) k = power_int 2 (k - e) * power_int 2 e"
  using power_int_add[of "2 :: rat" "k - e" e] by simp

lemma grid_cases:
  assumes "0 < a" and "h = of_int m * power_int 2 k" and "\<bar>m\<bar> < 2 ^ 53" and "- 1074 \<le> k"
  shows "(\<exists>j. h = of_int j * ulp a)
       \<or> (h < power_int 2 (ilog2 a) \<and> ulp a = power_int 2 (ilog2 a - 52))"
proof (cases "max (ilog2 a) (- 1022) - 52 \<le> k")
  case True
  define d where "d = k - (max (ilog2 a) (- 1022) - 52)"
  from True have d: "0 \<le> d" by (simp add: d_def)
  have "power_int (2 :: rat) k = power_int 2 d * ulp a"
    unfolding d_def ulp_def by (rule power_int_split)
  also have "power_int (2 :: rat) d = of_int (2 ^ nat d)"
    using d by (simp add: power_int_nat)
  finally have "h = of_int (m * 2 ^ nat d) * ulp a"
    using assms(2) by simp
  then show ?thesis by blast
next
  case False
  with assms(4) have e: "max (ilog2 a) (- 1022) = ilog2 a" and k: "k + 53 \<le> ilog2 a"
    by (simp_all add: max_def split: if_splits)
  have "of_int m \<le> (of_int \<bar>m\<bar> :: rat)" by simp
  also have "(of_int \<bar>m\<bar> :: rat) < of_int (2 ^ 53)"
    using assms(3) by (simp only: of_int_less_iff)
  finally have "(of_int m :: rat) < 2 ^ 53" by simp
  then have "h < 2 ^ 53 * power_int 2 k"
    unfolding assms(2) by (simp add: zero_less_power_int)
  also have "\<dots> = power_int 2 (k + 53)"
    using power_int_add[of "2 :: rat" 53 k] by (simp add: add.commute)
  also have "\<dots> \<le> power_int 2 (ilog2 a)"
    using k by (intro power_int_increasing) simp_all
  finally have "h < power_int 2 (ilog2 a)" .
  then show ?thesis by (simp add: ulp_def e)
qed

lemma nearest_nonneg: "0 \<le> a \<Longrightarrow> 0 \<le> nearest a"
proof -
  assume "0 \<le> a"
  then have "of_int 0 \<le> a / ulp a" using ulp_pos[of a] by simp
  then have "0 \<le> round_half_even (a / ulp a)" by (rule round_half_even_ge)
  then show ?thesis using ulp_pos[of a] by (simp add: nearest_def)
qed

lemma nearest_le:
  assumes "0 < a" and "a \<le> h"
    and "h = of_int m * power_int 2 k" and "\<bar>m\<bar> < 2 ^ 53" and "- 1074 \<le> k"
  shows "nearest a \<le> h"
  using grid_cases[OF assms(1,3,4,5)]
proof
  assume "\<exists>j. h = of_int j * ulp a"
  then obtain j where j: "h = of_int j * ulp a" by blast
  with assms(2) have "a / ulp a \<le> of_int j"
    using ulp_pos[of a] by (simp add: field_simps)
  then have "round_half_even (a / ulp a) \<le> j" by (rule round_half_even_le)
  then have "(of_int (round_half_even (a / ulp a)) :: rat) \<le> of_int j"
    by (simp only: of_int_le_iff)
  then show ?thesis
    unfolding nearest_def j using ulp_pos[of a] by (simp only: mult_le_cancel_right) simp
next
  assume "h < power_int 2 (ilog2 a) \<and> ulp a = power_int 2 (ilog2 a - 52)"
  with ilog2_bounds(1)[OF assms(1)] assms(2) show ?thesis by simp
qed

lemma nearest_ge:
  assumes "0 < a" and "l \<le> a"
    and "l = of_int m * power_int 2 k" and "\<bar>m\<bar> < 2 ^ 53" and "- 1074 \<le> k"
  shows "l \<le> nearest a"
  using grid_cases[OF assms(1,3,4,5)]
proof
  assume "\<exists>j. l = of_int j * ulp a"
  then obtain j where j: "l = of_int j * ulp a" by blast
  with assms(2) have "of_int j \<le> a / ulp a"
    using ulp_pos[of a] by (simp add: field_simps)
  then have "j \<le> round_half_even (a / ulp a)" by (rule round_half_even_ge)
  then have "(of_int j :: rat) \<le> of_int (round_half_even (a / ulp a))"
    by (simp only: of_int_le_iff)
  then show ?thesis
    unfolding nearest_def j using ulp_pos[of a] by (simp only: mult_le_cancel_right) simp
next
  assume below: "l < power_int 2 (ilog2 a) \<and> ulp a = power_int 2 (ilog2 a - 52)"
  have "power_int (2 :: rat) (ilog2 a) = power_int 2 52 * power_int 2 (ilog2 a - 52)"
    using power_int_add[of "2 :: rat" 52 "ilog2 a - 52"] by simp
  then have edge: "power_int (2 :: rat) (ilog2 a) = of_int (2 ^ 52) * ulp a"
    using below by simp
  with ilog2_bounds(1)[OF assms(1)] have "of_int (2 ^ 52) \<le> a / ulp a"
    using ulp_pos[of a] by (simp add: field_simps)
  then have "2 ^ 52 \<le> round_half_even (a / ulp a)" by (rule round_half_even_ge)
  then have "(of_int (2 ^ 52) :: rat) \<le> of_int (round_half_even (a / ulp a))"
    by (simp only: of_int_le_iff)
  then have "of_int (2 ^ 52) * ulp a \<le> nearest a"
    unfolding nearest_def using ulp_pos[of a] by (simp only: mult_le_cancel_right) simp
  with edge below show ?thesis by simp
qed

lemma fp64_le:
  assumes "0 < a" and "a \<le> h" and "representable h"
  shows "\<exists>v. fp64 a = Num v \<and> 0 \<le> v \<and> v \<le> h"
proof -
  from assms(3) obtain m k where h: "h = of_int m * power_int 2 k" "\<bar>m\<bar> < 2 ^ 53" "- 1074 \<le> k"
    and fin: "\<bar>h\<bar> < 2 ^ 1024" unfolding representable_def by blast
  from nearest_le[OF assms(1,2) h] have le: "nearest a \<le> h" .
  with fin have "\<not> 2 ^ 1024 \<le> nearest a" by simp
  with assms(1) have "fp64 a = Num (nearest a)" by (simp add: fp64_def)
  with le nearest_nonneg[of a] assms(1) show ?thesis by simp
qed

lemma fp64_ge:
  assumes "0 < a" and "l \<le> a" and "representable l" and "fp64 a = Num v"
  shows "l \<le> v"
proof -
  from assms(3) obtain m k where l: "l = of_int m * power_int 2 k" "\<bar>m\<bar> < 2 ^ 53" "- 1074 \<le> k"
    unfolding representable_def by blast
  from nearest_ge[OF assms(1,2) l] have "l \<le> nearest a" .
  moreover from assms(1,4) have "v = nearest a" by (simp add: fp64_def split: if_splits)
  ultimately show ?thesis by simp
qed

lemma fp64_exact:
  assumes "representable a" and "0 \<le> a"
  shows "fp64 a = Num a"
proof (cases "a = 0")
  case True
  then show ?thesis by (simp add: fp64_def)
next
  case False
  with assms(2) have pos: "0 < a" by simp
  from fp64_le[OF pos order_refl assms(1)] obtain v where v: "fp64 a = Num v" "v \<le> a" by blast
  from fp64_ge[OF pos order_refl assms(1) v(1)] v show ?thesis by simp
qed

lemma representable_of_nat: "n < 2 ^ 53 \<Longrightarrow> representable (of_nat n)"
proof -
  assume n: "n < 2 ^ 53"
  have "(of_nat n :: rat) = of_int (int n) * power_int 2 0" by simp
  moreover from n have "\<bar>int n\<bar> < 2 ^ 53" by simp
  moreover have "\<bar>of_nat n :: rat\<bar> < 2 ^ 1024"
  proof -
    have "(of_nat n :: rat) < of_nat (2 ^ 53)" using n by (simp only: of_nat_less_iff)
    also have "\<dots> < 2 ^ 1024" by simp
    finally show ?thesis by simp
  qed
  ultimately show ?thesis unfolding representable_def by fastforce
qed

lemma fp64_of_nat: "n < 2 ^ 53 \<Longrightarrow> fp64 (of_nat n) = Num (of_nat n)"
  by (rule fp64_exact[OF representable_of_nat]) simp_all

subsection \<open>The alternation of the names\<close>

text \<open>
  The four names differ in their first or third letter, so at a given position at most one
  alternative of \<^verbatim>\<open>(Content|Communicative Achievement|Organisation|Language)\<close> matches:
  when the rest of an expression fails after a name, no other alternative can save the
  match at that position.
\<close>

lemma ci_prefix_three:
  "ci_prefix (p1 # p2 # p3 # ps) s = Some r \<Longrightarrow>
     \<exists>c1 c2 c3 cs. s = c1 # c2 # c3 # cs \<and> ci_eq p1 c1 \<and> ci_eq p2 c2 \<and> ci_eq p3 c3"
  by (cases s; cases "tl s"; cases "tl (tl s)") (auto split: if_splits)

lemma alternatives_exclusive:
  assumes "n \<in> set requiredCriteria" "n' \<in> set requiredCriteria"
    and "ci_prefix n s = Some r" "ci_prefix n' s = Some r'"
  shows "n = n'"
proof (rule ccontr)
  assume ne: "n \<noteq> n'"
  have shape: "\<exists>p1 p2 p3 ps. m = p1 # p2 # p3 # ps"
    if "m \<in> set requiredCriteria" for m
    using that by (auto simp: requiredCriteria_def js_def)
  have key: "m = m'"
    if "m \<in> set requiredCriteria" "m' \<in> set requiredCriteria"
      "canonicalize (m ! 0) = canonicalize (m' ! 0)"
      "canonicalize (m ! 2) = canonicalize (m' ! 2)" for m m'
    using that by (auto simp: requiredCriteria_def js_def canonicalize_def)
  from shape[OF assms(1)] obtain p1 p2 p3 ps where n: "n = p1 # p2 # p3 # ps" by blast
  from shape[OF assms(2)] obtain q1 q2 q3 qs where n': "n' = q1 # q2 # q3 # qs" by blast
  from ci_prefix_three[OF assms(3)[unfolded n]] obtain c1 c2 c3 cs where
    s: "s = c1 # c2 # c3 # cs" and a: "ci_eq p1 c1" "ci_eq p3 c3" by blast
  from ci_prefix_three[OF assms(4)[unfolded n']] s have b: "ci_eq q1 c1" "ci_eq q3 c3" by auto
  from a b have "canonicalize (n ! 0) = canonicalize (n' ! 0)"
    "canonicalize (n ! 2) = canonicalize (n' ! 2)"
    by (simp_all add: n n' ci_eq_def)
  from key[OF assms(1,2) this] ne show False by simp
qed

subsection \<open>The result of the parser\<close>

lemma errors_section_returns: "\<exists>errs. errors_section P L e w = Inr errs"
  unfolding errors_section_def by (auto split: sum.splits prod.splits)

lemma parse_returns: "\<exists>r. parseAnalysisOutput P L output w = Inr r"
proof -
  obtain a e where s: "split_output output = (a, e)" by (cases "split_output output")
  obtain errs where es: "errors_section P L e w = Inr errs"
    using errors_section_returns by blast
  obtain cs overall where x: "extract_criteria a = (cs, overall)"
    by (cases "extract_criteria a")
  show ?thesis unfolding parseAnalysisOutput_def by (simp add: s es x)
qed

lemma parse_result:
  assumes "parseAnalysisOutput P L output w = Inr r"
  shows "criteria r = fst (extract_criteria (fst (split_output output)))"
    and "overallScore r =
           (if 0 < length (criteria r)
            then Math_round (js_div (snd (extract_criteria (fst (split_output output))))
                   (length (criteria r)))
            else Num 3)"
    and "errors_section P L (snd (split_output output)) w = Inr (errors r)"
proof -
  obtain a e where s: "split_output output = (a, e)" by (cases "split_output output")
  obtain errs where es: "errors_section P L e w = Inr errs"
    using errors_section_returns by blast
  obtain cs overall where x: "extract_criteria a = (cs, overall)"
    by (cases "extract_criteria a")
  have r: "r = \<lparr>overallScore = (if 0 < length cs then Math_round (js_div overall (length cs))
                                  else Num 3), criteria = cs, errors = errs\<rparr>"
    using assms unfolding parseAnalysisOutput_def by (simp add: s es x)
  show "criteria r = fst (extract_criteria (fst (split_output output)))"
    by (simp add: r s x)
  show "overallScore r =
           (if 0 < length (criteria r)
            then Math_round (js_div (snd (extract_criteria (fst (split_output output))))
                   (length (criteria r)))
            else Num 3)"
    by (simp add: r s x)
  show "errors_section P L (snd (split_output output)) w = Inr (errors r)"
    by (simp add: r s es)
qed

subsection \<open>Every required name is in the result\<close>

lemma fst_push: "fst (push c st) = fst st @ [c]"
  by (simp add: push_def)

lemma snd_push: "snd (push c st) = js_add (snd st) (score c)"
  by (simp add: push_def)

lemma default_fill_names:
  "set requiredCriteria \<subseteq> name ` set (fst (default_fill_pass a st))"
proof -
  define F where "F = set (map name (fst st))"
  define f where
    "f = (\<lambda>st' required. if required \<notin> F then push (default_criterion a required) st' else st')"
  have step: "name ` set (fst (foldl f s rs)) = name ` set (fst s) \<union> {q \<in> set rs. q \<notin> F}"
    for s rs
    by (induction rs arbitrary: s) (auto simp: f_def fst_push default_criterion_def)
  have "default_fill_pass a st = foldl f st requiredCriteria"
    unfolding default_fill_pass_def Let_def f_def F_def ..
  with step[of st requiredCriteria] show ?thesis by (auto simp: F_def)
qed

lemma extract_criteria_fst:
  "fst (extract_criteria a) =
     sort_criteria (fst (default_fill_pass a (gap_fill_pass a (primary_pass a))))"
  unfolding extract_criteria_def by (simp split: prod.splits)

lemma extract_criteria_snd:
  "snd (extract_criteria a) = snd (default_fill_pass a (gap_fill_pass a (primary_pass a)))"
  unfolding extract_criteria_def by (simp split: prod.splits)

lemma set_sort_criteria: "set (sort_criteria cs) = set cs"
  by (simp add: sort_criteria_def)

lemma required_distinct: "distinct requiredCriteria \<and> length requiredCriteria = 4"
  by (simp add: requiredCriteria_def js_def)

lemma extract_criteria_names:
  "set requiredCriteria \<subseteq> name ` set (fst (extract_criteria a))"
  by (simp add: extract_criteria_fst set_sort_criteria default_fill_names)

lemma extract_criteria_length: "4 \<le> length (fst (extract_criteria a))"
proof -
  let ?cs = "fst (extract_criteria a)"
  have "card (set requiredCriteria) = 4"
    using required_distinct by (simp add: distinct_card)
  moreover have "card (set requiredCriteria) \<le> card (name ` set ?cs)"
    by (rule card_mono) (simp_all add: extract_criteria_names)
  moreover have "card (name ` set ?cs) \<le> card (set ?cs)" by (rule card_image_le) simp
  moreover have "card (set ?cs) \<le> length ?cs" by (rule card_length)
  ultimately show ?thesis by linarith
qed

lemma default_fill_name_list:
  "map name (fst (default_fill_pass a st)) =
     map name (fst st) @ filter (\<lambda>q. q \<notin> set (map name (fst st))) requiredCriteria"
proof -
  define F where "F = set (map name (fst st))"
  define f where
    "f = (\<lambda>st' required. if required \<notin> F then push (default_criterion a required) st' else st')"
  have step: "map name (fst (foldl f s rs)) = map name (fst s) @ filter (\<lambda>q. q \<notin> F) rs"
    for s rs
    by (induction rs arbitrary: s) (auto simp: f_def fst_push default_criterion_def)
  have "default_fill_pass a st = foldl f st requiredCriteria"
    unfolding default_fill_pass_def Let_def f_def F_def ..
  with step[of st requiredCriteria] show ?thesis by (simp add: F_def)
qed

lemma exactly_four:
  assumes "distinct (map name (fst st))" and "set (map name (fst st)) \<subseteq> set requiredCriteria"
  shows "length (fst (default_fill_pass a st)) = 4"
    and "name ` set (fst (default_fill_pass a st)) = set requiredCriteria"
proof -
  let ?ns = "map name (fst (default_fill_pass a st))"
  have ns: "?ns = map name (fst st)
      @ filter (\<lambda>q. q \<notin> set (map name (fst st))) requiredCriteria"
    by (rule default_fill_name_list)
  have d: "distinct ?ns"
    unfolding ns using assms(1) required_distinct by auto
  have s: "set ?ns = set requiredCriteria"
    unfolding ns using assms(2) by auto
  have "length ?ns = card (set ?ns)" using d by (simp only: distinct_card)
  also have "\<dots> = 4" using required_distinct by (simp only: s distinct_card)
  finally show "length (fst (default_fill_pass a st)) = 4" by simp
  from s show "name ` set (fst (default_fill_pass a st)) = set requiredCriteria" by simp
qed

text \<open>
  What holds on every input: the parser returns a result (no exception leaves it), and
  for each of the four category names the criteria list holds a record with exactly that
  name. When the primary and the line pass have found no name twice and only names
  written as the four category names are, the list has exactly four records.
\<close>

lemma required_names_present:
  "\<exists>r. parseAnalysisOutput JSON_parse toLowerCase output writing = Inr r
       \<and> set requiredCriteria \<subseteq> name ` set (criteria r)
       \<and> 4 \<le> length (criteria r)
       \<and> (let found = map name (fst (gap_fill_pass (fst (split_output output))
                                      (primary_pass (fst (split_output output)))))
          in distinct found \<and> set found \<subseteq> set requiredCriteria
             \<longrightarrow> length (criteria r) = 4 \<and> name ` set (criteria r) = set requiredCriteria)"
proof -
  let ?a = "fst (split_output output)"
  let ?st = "gap_fill_pass ?a (primary_pass ?a)"
  obtain r where r: "parseAnalysisOutput JSON_parse toLowerCase output writing = Inr r"
    using parse_returns by blast
  have cr: "criteria r = sort_criteria (fst (default_fill_pass ?a ?st))"
    using parse_result(1)[OF r] by (simp add: extract_criteria_fst)
  have "length (criteria r) = 4 \<and> name ` set (criteria r) = set requiredCriteria"
    if "distinct (map name (fst ?st))" "set (map name (fst ?st)) \<subseteq> set requiredCriteria"
    using exactly_four[OF that, of ?a]
    by (simp add: cr sort_criteria_def set_sort_criteria)
  moreover have "set requiredCriteria \<subseteq> name ` set (criteria r)" "4 \<le> length (criteria r)"
    using parse_result(1)[OF r] extract_criteria_names extract_criteria_length by auto
  ultimately show ?thesis using r by (auto simp: Let_def)
qed

text \<open>
  The output \<^verbatim>\<open>Content (4/5): a Content (3/5): b\<close>: the primary loop pushes a record for
  each of the two headers, the line pass finds Content again and skips it, and the last
  pass adds the three missing names. The output \<^verbatim>\<open>CONTENT (4/5): fine\<close>: the header
  matches, since the expression ignores case, and its record is named as it is written;
  the last pass looks for the name Content, does not find it among the names, and adds a
  second record for the category.
\<close>

lemma run_repeated_header:
  "parseAnalysisOutput P L (js ''Content (4/5): a Content (3/5): b'') w =
   Inr \<lparr>overallScore = Num 3,
        criteria =
          [\<lparr>name = js ''Communicative Achievement'', score = Num 3,
            feedback = default_feedback (js ''Communicative Achievement'')\<rparr>,
           \<lparr>name = js ''Organisation'', score = Num 3,
            feedback = default_feedback (js ''Organisation'')\<rparr>,
           \<lparr>name = js ''Language'', score = Num 3,
            feedback = default_feedback (js ''Language'')\<rparr>,
           \<lparr>name = js ''Content'', score = Num 4, feedback = js ''a''\<rparr>,
           \<lparr>name = js ''Content'', score = Num 3, feedback = js ''b''\<rparr>],
        errors = []\<rparr>"
  by (simp add: string_defs extractor_defs parser_defs)

lemma run_upper_case_header:
  "parseAnalysisOutput P L (js ''CONTENT (4/5): fine'') w =
   Inr \<lparr>overallScore = Num 3,
        criteria =
          [\<lparr>name = js ''Communicative Achievement'', score = Num 3,
            feedback = default_feedback (js ''Communicative Achievement'')\<rparr>,
           \<lparr>name = js ''Organisation'', score = Num 3,
            feedback = default_feedback (js ''Organisation'')\<rparr>,
           \<lparr>name = js ''Language'', score = Num 3,
            feedback = default_feedback (js ''Language'')\<rparr>,
           \<lparr>name = js ''CONTENT'', score = Num 4, feedback = js ''fine''\<rparr>,
           \<lparr>name = js ''Content'', score = Num 3,
            feedback = default_feedback (js ''Content'')\<rparr>],
        errors = []\<rparr>"
  by (simp add: string_defs extractor_defs parser_defs)

text \<open>
  C1. The primary loop pushes a record for every match and never looks at the names it has
  pushed, and the names are compared as they are written although the expressions ignore
  case. A repeated header gives five records, two of them Content; a header in capitals
  gives five records, two of them for the category Content.
\<close>

theorem repeated_header_gives_five_records:
  "(\<exists>r. parseAnalysisOutput JSON_parse_sample toLowerCase_sample
          (js ''Content (4/5): a Content (3/5): b'') [] = Inr r
        \<and> length (criteria r) = 5
        \<and> map name (criteria r) =
            [js ''Communicative Achievement'', js ''Organisation'', js ''Language'',
             js ''Content'', js ''Content''])
   \<and> (\<exists>r. parseAnalysisOutput JSON_parse_sample toLowerCase_sample
          (js ''CONTENT (4/5): fine'') [] = Inr r
        \<and> length (criteria r) = 5
        \<and> map name (criteria r) =
            [js ''Communicative Achievement'', js ''Organisation'', js ''Language'',
             js ''CONTENT'', js ''Content''])"
  by (simp add: run_repeated_header run_upper_case_header)

subsection \<open>The range of the scores\<close>

lemma match_score_shape:
  "match_score s = Some (sc, r) \<Longrightarrow>
     (\<exists>d. sc = [d] \<and> is_digit d) \<or> (\<exists>d d'. sc = [d, 46, d'] \<and> is_digit d \<and> is_digit d')"
  unfolding match_score_def
  by (auto split: list.splits if_splits option.splits)

lemma digit_bound: "is_digit d \<Longrightarrow> d - 48 \<le> 9"
  unfolding is_digit_def by arith

lemma fp64_9_9: "fp64 (99 / 10) = Num (5573204538870989 / 562949953421312)"
  by (simp add: number_defs)

lemma representable_9_9: "representable (5573204538870989 / 562949953421312)"
proof -
  have "(5573204538870989 / 562949953421312 :: rat)
          = of_int 5573204538870989 * power_int 2 (- 49)"
    by simp
  moreover have "\<bar>5573204538870989 :: int\<bar> < 2 ^ 53" by simp
  moreover have "\<bar>5573204538870989 / 562949953421312 :: rat\<bar> < 2 ^ 1024" by simp
  ultimately show ?thesis unfolding representable_def by fastforce
qed

lemma fp64_in_range:
  assumes "0 \<le> a" and "a \<le> 99 / 10"
  shows "score_in_range (fp64 a)"
proof (cases "a = 0")
  case True
  then show ?thesis by (simp add: score_in_range_def fp64_9_9) (simp add: fp64_def)
next
  case False
  with assms(1) have pos: "0 < a" by simp
  from assms(2) have "a \<le> 5573204538870989 / 562949953421312" by simp
  from fp64_le[OF pos this representable_9_9] show ?thesis
    by (auto simp: score_in_range_def fp64_9_9)
qed

lemma parseFloat_digit: "is_digit d \<Longrightarrow> parseFloat [d] = Num (of_nat (d - 48))"
proof -
  assume d: "is_digit d"
  from digit_bound[OF d] have "d - 48 < 2 ^ 53" by simp
  then have "fp64 (of_nat (d - 48)) = Num (of_nat (d - 48))" by (rule fp64_of_nat)
  with d show ?thesis by (simp add: parseFloat_def)
qed

lemma parseFloat_decimal:
  "is_digit d \<Longrightarrow> is_digit d' \<Longrightarrow>
     parseFloat [d, 46, d'] = fp64 (of_nat (d - 48) + of_nat (d' - 48) / 10)"
  by (simp add: parseFloat_def is_digit_def)

lemma parseFloat_unit_in_range: "score_in_range (parseFloat [c])"
proof (cases "is_digit c")
  case True
  have "(of_nat (c - 48) :: rat) \<le> of_nat 9"
    using digit_bound[OF True] by (simp only: of_nat_le_iff)
  then have "score_in_range (fp64 (of_nat (c - 48)))"
    by (intro fp64_in_range) simp_all
  with True show ?thesis by (simp add: parseFloat_def)
next
  case False
  then show ?thesis by (simp add: parseFloat_def score_in_range_def)
qed

lemma parseFloat_capture_in_range:
  assumes "match_score s = Some (sc, r)"
  shows "score_in_range (parseFloat sc)"
proof -
  from match_score_shape[OF assms] show ?thesis
  proof (elim disjE exE conjE)
    fix d assume "sc = [d]" "is_digit d"
    then show ?thesis by (simp add: parseFloat_unit_in_range)
  next
    fix d d' assume sc: "sc = [d, 46, d']" and d: "is_digit d" and d': "is_digit d'"
    have a: "(of_nat (d - 48) :: rat) \<le> of_nat 9"
      using digit_bound[OF d] by (simp only: of_nat_le_iff)
    have b: "(of_nat (d' - 48) :: rat) \<le> of_nat 9"
      using digit_bound[OF d'] by (simp only: of_nat_le_iff)
    have "(of_nat (d - 48) :: rat) + of_nat (d' - 48) / 10 \<le> 99 / 10"
      using a b by simp
    moreover have "(0 :: rat) \<le> of_nat (d - 48) + of_nat (d' - 48) / 10" by simp
    ultimately have "score_in_range (fp64 (of_nat (d - 48) + of_nat (d' - 48) / 10))"
      by (intro fp64_in_range)
    then show ?thesis by (simp add: sc parseFloat_decimal[OF d d'])
  qed
qed

lemma primary_matches_capture:
  "(nm, sc, fb) \<in> set (primary_matches s) \<Longrightarrow> \<exists>s' r. match_score s' = Some (sc, r)"
proof (induction s rule: primary_matches.induct)
  case 1
  then show ?case by simp
next
  case (2 c cs)
  show ?case
  proof (cases "primary_at (c # cs)")
    case None
    with 2 show ?thesis by simp
  next
    case (Some mr)
    obtain m rest where mr: "mr = (m, rest)" by (cases mr)
    from 2(3) Some mr have "(nm, sc, fb) = m \<or> (nm, sc, fb) \<in> set (primary_matches rest)"
      by simp
    then show ?thesis
    proof
      assume "(nm, sc, fb) = m"
      with Some mr have "primary_at (c # cs) = Some ((nm, sc, fb), rest)" by simp
      then show ?thesis
        unfolding primary_at_def match_header_def
        by (auto split: option.splits prod.splits)
    next
      assume "(nm, sc, fb) \<in> set (primary_matches rest)"
      with 2(2)[OF Some[unfolded mr] refl] show ?thesis by simp
    qed
  qed
qed

lemma scores_in_range_push:
  "scores_in_range st \<Longrightarrow> score_in_range (score c) \<Longrightarrow> scores_in_range (push c st)"
  by (simp add: scores_in_range_def push_def)

lemma scores_in_range_primary: "scores_in_range (primary_pass a)"
proof -
  have "scores_in_range
          (foldl (\<lambda>st (nm, sc, fb).
                    push \<lparr>name = trim nm, score = parseFloat sc,
                          feedback = collapse_newlines (trim fb)\<rparr> st) s ms)"
    if "scores_in_range s" and "\<forall>m\<in>set ms. \<exists>s' r. match_score s' = Some (fst (snd m), r)"
    for s ms
    using that
  proof (induction ms arbitrary: s)
    case Nil
    then show ?case by simp
  next
    case (Cons m ms)
    obtain nm sc fb where m: "m = (nm, sc, fb)" by (cases m)
    from Cons.prems(2) m obtain s' r where "match_score s' = Some (sc, r)" by auto
    then have "score_in_range (parseFloat sc)" by (rule parseFloat_capture_in_range)
    with Cons.prems(1) have "scores_in_range
        (push \<lparr>name = trim nm, score = parseFloat sc,
               feedback = collapse_newlines (trim fb)\<rparr> s)"
      by (simp add: scores_in_range_push)
    with Cons.IH Cons.prems(2) show ?case by (simp add: m)
  qed
  moreover have "scores_in_range ([], Num 0)" by (simp add: scores_in_range_def)
  moreover have "\<forall>m\<in>set (primary_matches a). \<exists>s' r. match_score s' = Some (fst (snd m), r)"
    using primary_matches_capture by auto
  ultimately show ?thesis unfolding primary_pass_def by blast
qed

lemma match_score_loose_digit:
  "match_score_loose s = Some (d, g) \<Longrightarrow> \<exists>c. d = [c]"
  by (induction s) (auto split: if_splits option.splits)

lemma alt_match_digit: "alt_match s = Some (nm, d, g) \<Longrightarrow> \<exists>c. d = [c]"
proof (induction s)
  case Nil
  then show ?case
    by (auto simp: alt_match_at_def split: option.splits dest: match_score_loose_digit)
next
  case (Cons c cs)
  then show ?case
    by (auto simp: alt_match_at_def split: option.splits dest: match_score_loose_digit)
qed

lemma scores_in_range_gap_lines:
  "scores_in_range (fst sf) \<Longrightarrow> scores_in_range (fst (foldl gap_fill_line sf ls))"
proof (induction ls arbitrary: sf)
  case Nil
  then show ?case by simp
next
  case (Cons l ls)
  have "scores_in_range (fst (gap_fill_line sf l))"
  proof (cases "alt_match l")
    case None
    with Cons.prems show ?thesis by (simp add: gap_fill_line_def)
  next
    case (Some m)
    obtain nm d g where m: "m = (nm, d, g)" by (cases m)
    from alt_match_digit Some m obtain c where "d = [c]" by blast
    with Cons.prems Some m show ?thesis
      by (simp add: gap_fill_line_def scores_in_range_push parseFloat_unit_in_range)
  qed
  then show ?case using Cons.IH by simp
qed

lemma scores_in_range_gap_fill:
  "scores_in_range st \<Longrightarrow> scores_in_range (gap_fill_pass a st)"
  unfolding gap_fill_pass_def by (simp add: scores_in_range_gap_lines)

lemma find_d5_unit: "find_d5 s = Some g \<Longrightarrow> \<exists>c. g = [c]"
  by (induction s) (auto split: option.splits)

lemma default_match_unit: "default_match pat s = Some g \<Longrightarrow> \<exists>c. g = [c]"
  by (induction s)
     (auto simp: default_match_at_def split: option.splits dest: find_d5_unit)

lemma default_criterion_in_range: "score_in_range (score (default_criterion a required))"
proof (cases "default_match (lower_ascii required) a")
  case None
  then show ?thesis by (simp add: default_criterion_def score_in_range_def fp64_9_9)
next
  case (Some g)
  with default_match_unit obtain c where "g = [c]" by blast
  with Some show ?thesis by (simp add: default_criterion_def parseFloat_unit_in_range)
qed

lemma scores_in_range_default_fill:
  "scores_in_range st \<Longrightarrow> scores_in_range (default_fill_pass a st)"
proof -
  have "scores_in_range
          (foldl (\<lambda>st' required.
                    if required \<notin> F then push (default_criterion a required) st' else st')
             s rs)"
    if "scores_in_range s" for s rs F
    using that
    by (induction rs arbitrary: s)
       (simp_all add: scores_in_range_push default_criterion_in_range)
  then show "scores_in_range st \<Longrightarrow> scores_in_range (default_fill_pass a st)"
    unfolding default_fill_pass_def Let_def by blast
qed

text \<open>
  C9, as amended. Every criterion score of the result that is a number lies in the
  interval from 0 to 9.9, as the platform compares numbers (\<^verbatim>\<open>0 <= score && score <= 9.9\<close>,
  the number 9.9 being the double nearest to it), and no score is infinite: the primary
  pass reads a digit with an optional decimal, the line pass a digit, and the default is
  3; nothing clamps a score to 5.
\<close>

theorem scores_between_0_and_9_9:
  assumes "parseAnalysisOutput JSON_parse toLowerCase output writing = Inr r"
  shows "\<forall>c\<in>set (criteria r).
           score c = NaN \<or> (js_le (Num 0) (score c) \<and> js_le (score c) (fp64 (99 / 10)))"
proof -
  let ?a = "fst (split_output output)"
  have "scores_in_range (default_fill_pass ?a (gap_fill_pass ?a (primary_pass ?a)))"
    by (intro scores_in_range_default_fill scores_in_range_gap_fill scores_in_range_primary)
  moreover have "criteria r =
      sort_criteria (fst (default_fill_pass ?a (gap_fill_pass ?a (primary_pass ?a))))"
    using parse_result(1)[OF assms] by (simp add: extract_criteria_fst)
  ultimately show ?thesis
    by (simp add: scores_in_range_def score_in_range_def set_sort_criteria)
qed

lemma run_nine:
  "parseAnalysisOutput P L (js ''Content (9/5): fine'') w =
   Inr \<lparr>overallScore = Num 5,
        criteria =
          [\<lparr>name = js ''Communicative Achievement'', score = Num 3,
            feedback = default_feedback (js ''Communicative Achievement'')\<rparr>,
           \<lparr>name = js ''Organisation'', score = Num 3,
            feedback = default_feedback (js ''Organisation'')\<rparr>,
           \<lparr>name = js ''Language'', score = Num 3,
            feedback = default_feedback (js ''Language'')\<rparr>,
           \<lparr>name = js ''Content'', score = Num 9, feedback = js ''fine''\<rparr>],
        errors = []\<rparr>"
  by (simp add: string_defs extractor_defs parser_defs)

text \<open>An instance of C9: the score 9 of \<^verbatim>\<open>Content (9/5): fine\<close> is at most 9.9.\<close>

theorem scores_between_0_and_9_9_witness:
  "\<exists>r. parseAnalysisOutput JSON_parse_sample toLowerCase_sample
          (js ''Content (9/5): fine'') [] = Inr r
       \<and> score (criteria r ! 3) = Num 9
       \<and> js_le (Num 0) (Num 9) \<and> js_le (Num 9) (fp64 (99 / 10))"
  using scores_between_0_and_9_9
          [OF run_nine[of JSON_parse_sample toLowerCase_sample "[]"]]
  by (simp add: run_nine fp64_9_9)

text \<open>C9, as stated, fails: the header \<^verbatim>\<open>Content (9/5):\<close> gives the score 9.\<close>

theorem score_nine_counterexample:
  "\<exists>r. parseAnalysisOutput JSON_parse_sample toLowerCase_sample
          (js ''Content (9/5): fine'') [] = Inr r
       \<and> criteria r ! 3 = \<lparr>name = js ''Content'', score = Num 9, feedback = js ''fine''\<rparr>
       \<and> \<not> (9 :: rat) \<le> 5"
  by (simp add: run_nine)

subsection \<open>The overall score\<close>

lemma sum_invariant_push: "sum_invariant st \<Longrightarrow> sum_invariant (push c st)"
  by (simp add: sum_invariant_def push_def)

lemma sum_invariant_foldl:
  assumes "\<And>s x. sum_invariant s \<Longrightarrow> sum_invariant (f s x)" and "sum_invariant s"
  shows "sum_invariant (foldl f s xs)"
  using assms(2) by (induction xs arbitrary: s) (simp_all add: assms(1))

lemma sum_invariant_primary: "sum_invariant (primary_pass a)"
  unfolding primary_pass_def
proof (rule sum_invariant_foldl)
  show "sum_invariant ([], Num 0)" by (simp add: sum_invariant_def)
next
  fix s :: extractor_state and x :: "jstring \<times> jstring \<times> jstring"
  assume "sum_invariant s"
  then show "sum_invariant
      ((\<lambda>st (nm, sc, fb).
          push \<lparr>name = trim nm, score = parseFloat sc,
                feedback = collapse_newlines (trim fb)\<rparr> st) s x)"
    by (cases x) (simp add: sum_invariant_push)
qed

lemma sum_invariant_gap_lines:
  "sum_invariant (fst sf) \<Longrightarrow> sum_invariant (fst (foldl gap_fill_line sf ls))"
  by (induction ls arbitrary: sf)
     (auto simp: gap_fill_line_def sum_invariant_push split: option.splits)

lemma sum_invariant_gap_fill: "sum_invariant st \<Longrightarrow> sum_invariant (gap_fill_pass a st)"
  unfolding gap_fill_pass_def by (simp add: sum_invariant_gap_lines)

lemma sum_invariant_default_fill:
  "sum_invariant st \<Longrightarrow> sum_invariant (default_fill_pass a st)"
  unfolding default_fill_pass_def Let_def
  by (rule sum_invariant_foldl) (auto simp: sum_invariant_push)

lemma extract_criteria_sum:
  "snd (extract_criteria a) =
     foldl js_add (Num 0)
       (map score (fst (default_fill_pass a (gap_fill_pass a (primary_pass a)))))"
  using sum_invariant_default_fill[OF sum_invariant_gap_fill[OF sum_invariant_primary], of a a]
  by (simp add: extract_criteria_snd sum_invariant_def)

lemma sum_list_insort_key:
  fixes g :: "'a \<Rightarrow> rat"
  shows "sum_list (map g (insort_key f x xs)) = g x + sum_list (map g xs)"
  by (induction xs) (simp_all add: add.left_commute)

lemma sum_list_sort_key:
  fixes g :: "'a \<Rightarrow> rat"
  shows "sum_list (map g (sort_key f xs)) = sum_list (map g xs)"
  by (induction xs) (simp_all add: sum_list_insort_key)

lemma sum_list_bounded: "\<forall>k\<in>set ks. k \<le> b \<Longrightarrow> sum_list ks \<le> b * length (ks :: nat list)"
  by (induction ks) auto

lemma foldl_js_add_whole:
  "z + sum_list ks < 2 ^ 53 \<Longrightarrow>
     foldl js_add (Num (of_nat z)) (map (\<lambda>k. Num (of_nat k)) ks) = Num (of_nat (z + sum_list ks))"
proof (induction ks arbitrary: z)
  case Nil
  then show ?case by simp
next
  case (Cons k ks)
  from Cons.prems have zk: "z + k < 2 ^ 53" by simp
  have "js_add (Num (of_nat z)) (Num (of_nat k)) = fp64 (of_nat (z + k))" by simp
  also have "\<dots> = Num (of_nat (z + k))" using zk by (rule fp64_of_nat)
  finally have step: "js_add (Num (of_nat z)) (Num (of_nat k)) = Num (of_nat (z + k))" .
  from Cons.prems have "(z + k) + sum_list ks < 2 ^ 53" by simp
  from Cons.IH[OF this] step show ?case by (simp add: add.assoc)
qed

lemma floor_half: "\<lfloor>1 / 2 :: rat\<rfloor> = 0"
  by (rule floor_unique) simp_all

text \<open>
  The quotient of a whole sum and a length, rounded to a double and then by
  \<^verbatim>\<open>Math.round\<close>, is the exact quotient rounded: the doubles \<open>k - 1/2\<close> and
  \<open>k + 1/2 - 2 ^ (- 33)\<close> enclose the quotient when \<open>k\<close> is its rounded value.
\<close>

lemma rounded_quotient:
  assumes n: "0 < n" "n < 2 ^ 32" and S: "S \<le> 9 * n"
  shows "Math_round (fp64 (of_nat S / of_nat n))
           = Num (of_int \<lfloor>of_nat S / of_nat n + 1 / 2 :: rat\<rfloor>)"
proof (cases "S = 0")
  case True
  then show ?thesis by (simp add: fp64_def floor_half)
next
  case False
  define a :: rat where "a = of_nat S / of_nat n"
  define k where "k = \<lfloor>a + 1 / 2\<rfloor>"
  have npos: "(0 :: rat) < of_nat n" using n(1) by simp
  have pos: "0 < a" using False n(1) by (simp add: a_def)
  have "(of_nat S :: rat) \<le> of_nat (9 * n)" using S by (simp only: of_nat_le_iff)
  then have a9: "a \<le> 9" using npos by (simp add: a_def field_simps)
  have lo: "of_int k \<le> a + 1 / 2" and hi: "a + 1 / 2 < of_int k + 1"
    unfolding k_def by linarith+
  have k0: "0 \<le> k" unfolding k_def using pos by simp
  have "(of_int k :: rat) \<le> 9 + 1 / 2" using lo a9 by simp
  then have "(of_int k :: rat) < of_int 10" by simp
  then have k9: "k \<le> 9" by (simp only: of_int_less_iff)
  have "of_nat S < (of_int k + 1 / 2) * (of_nat n :: rat)"
    using hi npos by (simp add: a_def field_simps)
  then have "(of_int (2 * int S) :: rat) < of_int ((2 * k + 1) * int n)"
    by (simp add: field_simps)
  then have "2 * int S < (2 * k + 1) * int n" by (simp only: of_int_less_iff)
  then have gap: "2 * int S + 1 \<le> (2 * k + 1) * int n" by simp
  define h :: rat where "h = of_int ((2 * k + 1) * 2 ^ 32 - 1) * power_int 2 (- 33)"
  have h_val: "h = of_int k + 1 / 2 - 1 / 2 ^ 33"
    by (simp add: h_def field_simps)
  have "(of_int (2 * int S + 1) :: rat) \<le> of_int ((2 * k + 1) * int n)"
    using gap by (simp only: of_int_le_iff)
  then have "2 * of_nat S + 1 \<le> (2 * of_int k + 1) * (of_nat n :: rat)" by simp
  then have "a \<le> of_int k + 1 / 2 - 1 / (2 * of_nat n)"
    using npos by (simp add: a_def field_simps)
  moreover have "1 / (2 ^ 33 :: rat) \<le> 1 / (2 * of_nat n)"
  proof -
    have "(of_nat (2 * n) :: rat) \<le> of_nat (2 ^ 33)"
      using n(2) by (simp only: of_nat_le_iff) simp
    then have "2 * (of_nat n :: rat) \<le> 2 ^ 33" by simp
    with npos show ?thesis by (intro divide_left_mono) simp_all
  qed
  ultimately have ah: "a \<le> h" by (simp add: h_val)
  have rep_h: "representable h"
  proof -
    have "\<bar>(2 * k + 1) * 2 ^ 32 - 1\<bar> < (2 :: int) ^ 53" using k0 k9 by simp
    moreover have "\<bar>h\<bar> < 2 ^ 1024"
    proof -
      have "0 \<le> h" using pos ah by simp
      moreover have "h < 10" using k9 by (simp add: h_val)
      ultimately show ?thesis by simp
    qed
    ultimately show ?thesis unfolding representable_def h_def by fastforce
  qed
  from fp64_le[OF pos ah rep_h] obtain v where v: "fp64 a = Num v" "0 \<le> v" "v \<le> h" by blast
  have v_hi: "v + 1 / 2 < of_int k + 1" using v(3) by (simp add: h_val)
  have v_lo: "of_int k \<le> v + 1 / 2"
  proof (cases "k = 0")
    case True
    with v(2) show ?thesis by simp
  next
    case nonzero: False
    define l :: rat where "l = of_int (2 * k - 1) * power_int 2 (- 1)"
    have l_val: "l = of_int k - 1 / 2" by (simp add: l_def field_simps)
    have "\<bar>2 * k - 1\<bar> < (2 :: int) ^ 53" using k0 k9 by simp
    moreover have "\<bar>l\<bar> < 2 ^ 1024"
    proof -
      have "0 \<le> l" using nonzero k0 by (simp add: l_val)
      moreover have "l < 10" using k9 by (simp add: l_val)
      ultimately show ?thesis by simp
    qed
    ultimately have rep_l: "representable l" unfolding representable_def l_def by fastforce
    have "l \<le> a" using lo by (simp add: l_val)
    from fp64_ge[OF pos this rep_l v(1)] show ?thesis by (simp add: l_val)
  qed
  have "\<lfloor>v + 1 / 2\<rfloor> = k" using v_lo v_hi by (rule floor_unique)
  then show ?thesis using v(1) by (simp add: a_def k_def)
qed

text \<open>
  C2, as amended. The overall score is \<^verbatim>\<open>Math.round\<close> of the quotient of the sum of the
  scores and their number, both operations in double arithmetic, the scores being added
  one by one from 0 in the order in which the records were found. When every score is a
  whole number (and the list has a length that an array can have) this is an integer, the
  exact mean of the scores rounded to the nearest integer with a tie going up. The list is
  never empty, so the branch of the source that returns 3 for an empty list is never taken.
\<close>

theorem overall_score_rounded_mean:
  assumes "parseAnalysisOutput JSON_parse toLowerCase output writing = Inr r"
  shows "criteria r = sort_criteria (found_criteria output)
       \<and> overallScore r =
           Math_round (js_div (foldl js_add (Num 0) (map score (found_criteria output)))
                         (length (found_criteria output)))
       \<and> ((\<forall>c\<in>set (criteria r). \<exists>k. score c = Num (of_nat k)) \<and> length (criteria r) < 2 ^ 32
            \<longrightarrow> overallScore r =
                  Num (of_int \<lfloor>sum_list (map (\<lambda>c. num_value (score c)) (criteria r))
                                  / of_nat (length (criteria r)) + 1 / 2\<rfloor>))"
proof -
  let ?a = "fst (split_output output)"
  let ?cs = "found_criteria output"
  have cr: "criteria r = sort_criteria ?cs"
    using parse_result(1)[OF assms] by (simp add: extract_criteria_fst found_criteria_def)
  have len_eq: "length (criteria r) = length ?cs" by (simp add: cr sort_criteria_def)
  have "4 \<le> length (criteria r)"
    using parse_result(1)[OF assms] extract_criteria_length[of ?a] by simp
  then have len: "0 < length ?cs" using len_eq by linarith
  have total: "snd (extract_criteria ?a) = foldl js_add (Num 0) (map score ?cs)"
    by (simp add: extract_criteria_sum found_criteria_def)
  have overall: "overallScore r =
      Math_round (js_div (foldl js_add (Num 0) (map score ?cs)) (length ?cs))"
    using parse_result(2)[OF assms] len by (simp add: total len_eq)
  have whole: "overallScore r =
      Num (of_int \<lfloor>sum_list (map (\<lambda>c. num_value (score c)) (criteria r))
                      / of_nat (length (criteria r)) + 1 / 2\<rfloor>)"
    if w: "\<forall>c\<in>set (criteria r). \<exists>k. score c = Num (of_nat k)"
      and small: "length (criteria r) < 2 ^ 32"
  proof -
    define ks where "ks = map (\<lambda>c. nat \<lfloor>num_value (score c)\<rfloor>) ?cs"
    have each: "score c = Num (of_nat (nat \<lfloor>num_value (score c)\<rfloor>))" if "c \<in> set ?cs" for c
    proof -
      from that w obtain k where "score c = Num (of_nat k)"
        by (auto simp: cr set_sort_criteria)
      then show ?thesis by simp
    qed
    then have scores: "map score ?cs = map (\<lambda>k. Num (of_nat k)) ks"
      by (simp add: ks_def comp_def)
    have "scores_in_range (default_fill_pass ?a (gap_fill_pass ?a (primary_pass ?a)))"
      by (intro scores_in_range_default_fill scores_in_range_gap_fill scores_in_range_primary)
    then have range: "score_in_range (score c)" if "c \<in> set ?cs" for c
      using that by (simp add: scores_in_range_def found_criteria_def)
    have k9: "\<forall>k\<in>set ks. k \<le> 9"
    proof
      fix k assume "k \<in> set ks"
      then obtain c where c: "c \<in> set ?cs" "k = nat \<lfloor>num_value (score c)\<rfloor>"
        by (auto simp: ks_def)
      from each[OF c(1)] c(2) have "score c = Num (of_nat k)" by simp
      with range[OF c(1)] have "(of_nat k :: rat) \<le> 5573204538870989 / 562949953421312"
        by (simp add: score_in_range_def fp64_9_9)
      then have "(of_nat k :: rat) < of_nat 10" by simp
      then show "k \<le> 9" by (simp only: of_nat_less_iff)
    qed
    have lks: "length ks = length ?cs" by (simp add: ks_def)
    from sum_list_bounded[OF k9] have S9: "sum_list ks \<le> 9 * length ?cs" by (simp add: lks)
    with small have "0 + sum_list ks < 2 ^ 53" by (simp add: len_eq)
    from foldl_js_add_whole[OF this] have fold:
      "foldl js_add (Num 0) (map score ?cs) = Num (of_nat (sum_list ks))"
      by (simp add: scores)
    have "sum_list (map (\<lambda>c. num_value (score c)) (criteria r))
            = sum_list (map (\<lambda>c. num_value (score c)) ?cs)"
      by (simp add: cr sort_criteria_def sum_list_sort_key)
    also have "\<dots> = sum_list (map num_value (map score ?cs))" by (simp add: comp_def)
    also have "\<dots> = sum_list (map of_nat ks)" by (simp add: scores comp_def)
    also have "\<dots> = of_nat (sum_list ks)" by (induction ks) simp_all
    finally have exact: "sum_list (map (\<lambda>c. num_value (score c)) (criteria r))
        = of_nat (sum_list ks)" .
    from small have "length ?cs < 2 ^ 32" by (simp add: len_eq)
    from rounded_quotient[OF len this S9] show ?thesis
      using len by (simp add: overall fold exact len_eq)
  qed
  show ?thesis
    by (intro conjI impI) (use cr overall whole in blast)+
qed

lemma run_three_three_four_three:
  "parseAnalysisOutput P L
     (js ''Content (3/5): a Communicative Achievement (3/5): b Organisation (4/5): c Language (3/5): d'')
     w =
   Inr \<lparr>overallScore = Num 3,
        criteria =
          [\<lparr>name = js ''Communicative Achievement'', score = Num 3, feedback = js ''b''\<rparr>,
           \<lparr>name = js ''Organisation'', score = Num 4, feedback = js ''c''\<rparr>,
           \<lparr>name = js ''Language'', score = Num 3, feedback = js ''d''\<rparr>,
           \<lparr>name = js ''Content'', score = Num 3, feedback = js ''a''\<rparr>],
        errors = []\<rparr>"
  by (simp add: string_defs extractor_defs parser_defs)

text \<open>
  An instance of C2: the scores 3, 3, 4 and 3 have the mean 3.25, and the overall score
  is 3.
\<close>

theorem overall_score_rounded_mean_witness:
  "\<exists>r. parseAnalysisOutput JSON_parse_sample toLowerCase_sample
          (js ''Content (3/5): a Communicative Achievement (3/5): b Organisation (4/5): c Language (3/5): d'')
          [] = Inr r
       \<and> map score (criteria r) = [Num 3, Num 4, Num 3, Num 3]
       \<and> length (criteria r) < 2 ^ 32
       \<and> overallScore r = Num (of_int \<lfloor>(3 + 4 + 3 + 3) / 4 + 1 / 2 :: rat\<rfloor>)"
proof -
  have w3: "\<exists>k. Num 3 = Num (rat_of_nat k)" by (rule exI[of _ 3]) simp
  have w4: "\<exists>k. Num 4 = Num (rat_of_nat k)" by (rule exI[of _ 4]) simp
  from overall_score_rounded_mean
         [OF run_three_three_four_three[of JSON_parse_sample toLowerCase_sample "[]"]]
  show ?thesis
    unfolding run_three_three_four_three using w3 w4 by simp
qed

lemma run_fractional:
  "parseAnalysisOutput P L
     (js ''Content (2/5): a Communicative Achievement (3.6/5): b Organisation (4.8/5): c Language (3.6/5): d'')
     w =
   Inr \<lparr>overallScore = Num 3,
        criteria =
          [\<lparr>name = js ''Communicative Achievement'',
            score = Num (8106479329266893 / 2251799813685248), feedback = js ''b''\<rparr>,
           \<lparr>name = js ''Organisation'',
            score = Num (5404319552844595 / 1125899906842624), feedback = js ''c''\<rparr>,
           \<lparr>name = js ''Language'',
            score = Num (8106479329266893 / 2251799813685248), feedback = js ''d''\<rparr>,
           \<lparr>name = js ''Content'', score = Num 2, feedback = js ''a''\<rparr>],
        errors = []\<rparr>"
  by (simp add: string_defs extractor_defs parser_defs)

lemma fractional_doubles:
  "fp64 (36 / 10) = Num (8106479329266893 / 2251799813685248)"
  "fp64 (48 / 10) = Num (5404319552844595 / 1125899906842624)"
  by (simp_all add: number_defs)

lemma fractional_sum:
  "foldl js_add (Num 0) [Num 2, fp64 (36 / 10), fp64 (48 / 10), fp64 (36 / 10)]
     = Num (7881299347898367 / 562949953421312)"
  by (simp add: number_defs)

text \<open>
  C2, as stated, fails: the scores 2, 3.6, 4.8 and 3.6 of a well-formed output have the
  mean 3.5, which rounds to 4, and so has the mean of the four doubles that stand for
  them, whose sum is 14. Added one by one in double arithmetic they give
  13.999999999999998, and the overall score is 3.
\<close>

theorem fractional_scores_counterexample:
  "\<exists>r. parseAnalysisOutput JSON_parse_sample toLowerCase_sample
          (js ''Content (2/5): a Communicative Achievement (3.6/5): b Organisation (4.8/5): c Language (3.6/5): d'')
          [] = Inr r
       \<and> map score (criteria r) = [fp64 (36 / 10), fp64 (48 / 10), fp64 (36 / 10), Num 2]
       \<and> map score (found_criteria
            (js ''Content (2/5): a Communicative Achievement (3.6/5): b Organisation (4.8/5): c Language (3.6/5): d''))
           = [Num 2, fp64 (36 / 10), fp64 (48 / 10), fp64 (36 / 10)]
       \<and> foldl js_add (Num 0) [Num 2, fp64 (36 / 10), fp64 (48 / 10), fp64 (36 / 10)]
           = Num (7881299347898367 / 562949953421312)
       \<and> overallScore r = Num 3
       \<and> sum_list (map (\<lambda>c. num_value (score c)) (criteria r)) = 14
       \<and> \<lfloor>sum_list (map (\<lambda>c. num_value (score c)) (criteria r)) / 4 + 1 / 2\<rfloor> = 4
       \<and> \<lfloor>(2 + 36 / 10 + 48 / 10 + 36 / 10) / 4 + 1 / 2 :: rat\<rfloor> = 4"
  by (simp add: run_fractional fractional_doubles fractional_sum floor_rat_numeral)
     (simp add: found_criteria_def string_defs extractor_defs parser_defs)

subsection \<open>The order of the result\<close>

lemma floor_7_2: "\<lfloor>7 / 2 :: rat\<rfloor> = 3"
  by code_simp

lemma floor_9_2: "\<lfloor>9 / 2 :: rat\<rfloor> = 4"
  by code_simp

lemma run_well_formed:
  "parseAnalysisOutput P L
     (js ''Content (4/5): a Communicative Achievement (3/5): b Organisation (4/5): c Language (5/5): d'')
     w =
   Inr \<lparr>overallScore = Num 4,
        criteria =
          [\<lparr>name = js ''Communicative Achievement'', score = Num 3, feedback = js ''b''\<rparr>,
           \<lparr>name = js ''Organisation'', score = Num 4, feedback = js ''c''\<rparr>,
           \<lparr>name = js ''Language'', score = Num 5, feedback = js ''d''\<rparr>,
           \<lparr>name = js ''Content'', score = Num 4, feedback = js ''a''\<rparr>],
        errors = []\<rparr>"
  by (simp add: string_defs extractor_defs parser_defs floor_9_2)

text \<open>
  C3. The comparator reads \<^verbatim>\<open>sortOrder[a.name] || 999\<close>, and the entry of Content is 0,
  which is falsy: Content gets the rank 999 and is sorted behind the other three. On an
  output with the four headers in their canonical order the result is ordered
  Communicative Achievement, Organisation, Language, Content.
\<close>

theorem content_sorted_last:
  "sort_rank (js ''Content'') = 999
   \<and> (\<exists>r. parseAnalysisOutput JSON_parse_sample toLowerCase_sample
          (js ''Content (4/5): a Communicative Achievement (3/5): b Organisation (4/5): c Language (5/5): d'')
          [] = Inr r
        \<and> map name (criteria r) =
            [js ''Communicative Achievement'', js ''Organisation'', js ''Language'',
             js ''Content''])"
  by (simp add: run_well_formed) (simp add: sort_rank_def sortOrder_def js_def)

subsection \<open>The last-resort scan\<close>

lemma run_rated:
  "parseAnalysisOutput P L (js ''Content is rated 4/5'') w =
   Inr \<lparr>overallScore = Num 3,
        criteria =
          [\<lparr>name = js ''Communicative Achievement'', score = Num 3,
            feedback = default_feedback (js ''Communicative Achievement'')\<rparr>,
           \<lparr>name = js ''Organisation'', score = Num 3,
            feedback = default_feedback (js ''Organisation'')\<rparr>,
           \<lparr>name = js ''Language'', score = Num 3,
            feedback = default_feedback (js ''Language'')\<rparr>,
           \<lparr>name = js ''Content'', score = Num 3,
            feedback = default_feedback (js ''Content'')\<rparr>],
        errors = []\<rparr>"
  by (simp add: string_defs extractor_defs parser_defs floor_7_2)

lemma run_good:
  "parseAnalysisOutput P L (js ''Content: good/5'') w =
   Inr \<lparr>overallScore = NaN,
        criteria =
          [\<lparr>name = js ''Communicative Achievement'', score = Num 3,
            feedback = default_feedback (js ''Communicative Achievement'')\<rparr>,
           \<lparr>name = js ''Organisation'', score = Num 3,
            feedback = default_feedback (js ''Organisation'')\<rparr>,
           \<lparr>name = js ''Language'', score = Num 3,
            feedback = default_feedback (js ''Language'')\<rparr>,
           \<lparr>name = js ''Content'', score = NaN,
            feedback = default_feedback (js ''Content'')\<rparr>],
        errors = []\<rparr>"
  by (simp add: string_defs extractor_defs parser_defs)

text \<open>
  C8. The pattern of the last pass is built in a template literal, where \<^verbatim>\<open>\d\<close> is the
  letter d: the scan looks for \<^verbatim>\<open>d/5\<close>, not for a digit before \<^verbatim>\<open>/5\<close>. On
  \<^verbatim>\<open>Content is rated 4/5\<close> it finds nothing and the score is the default 3, not 4; on
  \<^verbatim>\<open>Content: good/5\<close> it captures the letter d and the score is \<^verbatim>\<open>NaN\<close>.
\<close>

theorem last_resort_scan_reads_letter_d:
  "(\<exists>r. parseAnalysisOutput JSON_parse_sample toLowerCase_sample
          (js ''Content is rated 4/5'') [] = Inr r
        \<and> criteria r ! 3 = \<lparr>name = js ''Content'', score = Num 3,
                              feedback = default_feedback (js ''Content'')\<rparr>)
   \<and> (\<exists>r. parseAnalysisOutput JSON_parse_sample toLowerCase_sample
          (js ''Content: good/5'') [] = Inr r
        \<and> criteria r ! 3 = \<lparr>name = js ''Content'', score = NaN,
                              feedback = default_feedback (js ''Content'')\<rparr>
        \<and> overallScore r = NaN)"
  by (simp add: run_rated run_good)

subsection \<open>The mask\<close>

lemma used_set_replicate: "used_set (replicate n False) = {}"
  by (auto simp: used_set_def)





subsection \<open>The search loop\<close>

lemma find_from_Some:
  "find_from nW nE u i0 = Some i \<Longrightarrow>
     i0 \<le> i \<and> i + length nE \<le> length nW
     \<and> substring nW i (i + length nE) = nE \<and> \<not> any_used u i (length nE)
     \<and> (\<forall>j. i0 \<le> j \<and> j < i \<longrightarrow>
            \<not> (substring nW j (j + length nE) = nE \<and> \<not> any_used u j (length nE)))"
proof (induction nW nE u i0 rule: find_from.induct)
  case (1 nW nE u i0)
  show ?case
  proof (cases "i0 + length nE \<le> length nW")
    case False
    with "1.prems" show ?thesis by (simp add: find_from.simps[of nW nE u i0])
  next
    case inside: True
    show ?thesis
    proof (cases "substring nW i0 (i0 + length nE) = nE \<and> \<not> any_used u i0 (length nE)")
      case True
      with inside "1.prems" have "i = i0" by (simp add: find_from.simps[of nW nE u i0])
      with True inside show ?thesis by auto
    next
      case False
      with inside "1.prems" have next_one: "find_from nW nE u (i0 + 1) = Some i"
        by (auto simp add: find_from.simps[of nW nE u i0] split: if_splits)
      have ih: "i0 + 1 \<le> i \<and> i + length nE \<le> length nW
        \<and> substring nW i (i + length nE) = nE \<and> \<not> any_used u i (length nE)
        \<and> (\<forall>j. i0 + 1 \<le> j \<and> j < i \<longrightarrow>
            \<not> (substring nW j (j + length nE) = nE \<and> \<not> any_used u j (length nE)))"
        using "1.IH"[OF inside False next_one] .
      have "\<not> (substring nW j (j + length nE) = nE \<and> \<not> any_used u j (length nE))"
        if "i0 \<le> j" "j < i" for j
      proof (cases "j = i0")
        case True
        with False show ?thesis by simp
      next
        case False
        with that have "i0 + 1 \<le> j" by simp
        with ih that show ?thesis by blast
      qed
      with ih show ?thesis by auto
    qed
  qed
qed

subsection \<open>One record\<close>

lemma keys_distinct:
  "js ''start'' \<noteq> js ''end''" "js ''type'' \<noteq> js ''start''" "js ''type'' \<noteq> js ''end''"
  "js ''text'' \<noteq> js ''start''" "js ''text'' \<noteq> js ''end''" "js ''text'' \<noteq> js ''type''"
  by (simp_all add: js_def)

lemma get_prop_set_prop:
  "get_prop (set_prop k v e) k' =
     (case e of JObj kvs \<Rightarrow> if k' = k then Some v else get_prop e k' | _ \<Rightarrow> get_prop e k')"
  by (cases e) (simp_all add: update_conv')

lemma get_prop_Some_obj: "get_prop e k = Some x \<Longrightarrow> \<exists>kvs. e = JObj kvs"
  by (cases e) simp_all

lemma get_prop_with_span_other:
  "k \<noteq> js ''start'' \<Longrightarrow> k \<noteq> js ''end'' \<Longrightarrow> get_prop (with_span e a b) k = get_prop e k"
  by (cases e) (simp_all add: with_span_def update_conv')

lemma located_span_with_span:
  "get_prop e k = Some x \<Longrightarrow> located_span (with_span e a b) = Some (of_nat a, of_nat b)"
  using keys_distinct(1)
  by (cases e) (simp_all add: with_span_def located_span_def update_conv')

lemma get_prop_recategorize_type:
  "get_prop (recategorize d) (js ''type'') =
     (if get_prop d (js ''type'') = Some (JStr (js ''register''))
      then Some (JStr (js ''style'')) else get_prop d (js ''type''))"
  by (cases d) (simp_all add: recategorize_def update_conv')

lemma get_prop_recategorize_other:
  "k \<noteq> js ''type'' \<Longrightarrow> get_prop (recategorize d) k = get_prop d k"
  by (cases d) (simp_all add: recategorize_def update_conv')

lemma located_span_recategorize: "located_span (recategorize d) = located_span d"
proof -
  have a: "get_prop (recategorize d) (js ''start'') = get_prop d (js ''start'')"
    by (rule get_prop_recategorize_other) (simp add: js_def)
  have b: "get_prop (recategorize d) (js ''end'') = get_prop d (js ''end'')"
    by (rule get_prop_recategorize_other) (simp add: js_def)
  show ?thesis unfolding located_span_def a b ..
qed

text \<open>What the callback does with one record: it returns it as it is, or it finds the first
  unused occurrence, marks it and attaches the span.\<close>

lemma locate_one_cases:
  assumes "locate_one L w u e = Inr (u', e')"
  shows "(u' = u \<and> e' = e
            \<and> (\<forall>t. get_prop e (js ''text'') = Some (JStr t) \<and> t \<noteq> []
                   \<longrightarrow> find_from (L w) (L t) u 0 = None))
         \<or> (\<exists>t i. get_prop e (js ''text'') = Some (JStr t) \<and> t \<noteq> []
                \<and> find_from (L w) (L t) u 0 = Some i
                \<and> u' = mark_used i (length (L t)) u
                \<and> e' = with_span e i (i + length t))"
proof (cases "\<not> truthy e \<or> \<not> truthy_opt (get_prop e (js ''text''))")
  case True
  with assms have "u' = u" "e' = e" by (simp_all add: locate_one_def)
  moreover have "\<not> (get_prop e (js ''text'') = Some (JStr t) \<and> t \<noteq> [])" for t
    using True by (cases e) (auto simp: truthy_opt_def)
  ultimately show ?thesis by blast
next
  case False
  then obtain x where x: "get_prop e (js ''text'') = Some x" "truthy x"
    by (auto simp: truthy_opt_def split: option.splits)
  show ?thesis
  proof (cases x)
    case (JStr t)
    with x have t: "get_prop e (js ''text'') = Some (JStr t)" "t \<noteq> []" by simp_all
    show ?thesis
    proof (cases "find_from (L w) (L t) u 0")
      case None
      with assms False t show ?thesis by (simp add: locate_one_def)
    next
      case (Some i)
      with assms False t have "u' = mark_used i (length (L t)) u"
        "e' = with_span e i (i + length t)"
        by (simp_all add: locate_one_def Let_def)
      with t Some show ?thesis by blast
    qed
  qed (use assms False x in \<open>simp_all add: locate_one_def\<close>)
qed


subsection \<open>All records\<close>

lemma locate_all_Cons:
  "locate_all L w u (e # es) = Inr (u', out) \<Longrightarrow>
     \<exists>u1 e' out'. locate_one L w u e = Inr (u1, e') \<and> locate_all L w u1 es = Inr (u', out')
        \<and> out = e' # out'"
  by (auto split: sum.splits prod.splits)

lemma locate_all_length: "locate_all L w u es = Inr (u', out) \<Longrightarrow> length out = length es"
proof (induction es arbitrary: u out)
  case Nil
  then show ?case by simp
next
  case (Cons e es)
  from locate_all_Cons[OF Cons.prems] Cons.IH show ?case by auto
qed


text \<open>The run up to record \<open>k\<close>, and the step that handles it.\<close>

lemma locate_all_step:
  "locate_all L w u es = Inr (u', out) \<Longrightarrow> k < length es \<Longrightarrow>
     \<exists>uk uk'. locate_all L w u (take k es) = Inr (uk, take k out)
        \<and> locate_one L w uk (es ! k) = Inr (uk', out ! k)"
proof (induction es arbitrary: u out k)
  case Nil
  then show ?case by simp
next
  case (Cons e es)
  from locate_all_Cons[OF Cons.prems(1)] obtain u1 e' out' where
    one: "locate_one L w u e = Inr (u1, e')" and rest: "locate_all L w u1 es = Inr (u', out')"
    and out: "out = e' # out'" by blast
  show ?case
  proof (cases k)
    case 0
    with one out show ?thesis by simp
  next
    case (Suc k')
    with Cons.prems(2) have "k' < length es" by simp
    from Cons.IH[OF rest this] obtain uk uk' where
      "locate_all L w u1 (take k' es) = Inr (uk, take k' out')"
      "locate_one L w uk (es ! k') = Inr (uk', out' ! k')" by blast
    with one out Suc show ?thesis by simp
  qed
qed

lemma locate_all_rel:
  "locate_all L w u es = Inr (u', out) \<Longrightarrow>
     list_all2 (\<lambda>e e'. e' = e \<or> (\<exists>i j. e' = with_span e i j)) es out"
proof (induction es arbitrary: u out)
  case Nil
  then show ?case by simp
next
  case (Cons e es)
  from locate_all_Cons[OF Cons.prems] obtain u1 e' out' where
    one: "locate_one L w u e = Inr (u1, e')" and rest: "locate_all L w u1 es = Inr (u', out')"
    and out: "out = e' # out'" by blast
  from locate_one_cases[OF one] have "e' = e \<or> (\<exists>i j. e' = with_span e i j)" by blast
  with Cons.IH[OF rest] out show ?case by simp
qed

subsection \<open>The errors of the result\<close>

lemma decoded_errors_empty:
  "snd (split_output output) = [] \<or> error_fragments (snd (split_output output)) = []
     \<Longrightarrow> decoded_errors P output = []"
  by (auto simp: decoded_errors_def decode_fragments_def)

lemma errors_cases:
  assumes "parseAnalysisOutput P L output w = Inr r"
  defines "es \<equiv> map recategorize (decoded_errors P output)"
  shows "(\<exists>u. locate_all L w (replicate (length w) False) es = Inr (u, errors r))
         \<or> ((\<exists>x. locate_all L w (replicate (length w) False) es = Inl x) \<and> errors r = es)"
proof -
  let ?e = "snd (split_output output)"
  have sec: "errors_section P L ?e w = Inr (errors r)"
    using assms(1) by (rule parse_result)
  show ?thesis
  proof (cases "?e = [] \<or> error_fragments ?e = []")
    case True
    then have "es = []" by (simp add: es_def decoded_errors_empty)
    moreover have "errors r = []"
      using sec True by (auto simp: errors_section_def errors_try_def split: if_splits)
    ultimately show ?thesis by simp
  next
    case False
    then obtain m ms where fr: "error_fragments ?e = m # ms"
      by (cases "error_fragments ?e") auto
    have es: "es = map recategorize (decode_fragments P (m # ms))"
      by (simp add: es_def decoded_errors_def fr)
    show ?thesis
    proof (cases "locate_all L w (replicate (length w) False) es")
      case (Inl x)
      with sec False fr es have "errors r = es"
        by (simp add: errors_section_def errors_try_def Let_def)
      with Inl show ?thesis by blast
    next
      case (Inr p)
      obtain u out where p: "p = (u, out)" by (cases p)
      with Inr sec False fr es have "errors r = out"
        by (simp add: errors_section_def errors_try_def Let_def)
      with Inr p show ?thesis by blast
    qed
  qed
qed

lemma errors_rel:
  assumes "parseAnalysisOutput P L output w = Inr r"
  shows "list_all2 (\<lambda>d e. e = recategorize d \<or> (\<exists>i j. e = with_span (recategorize d) i j))
           (decoded_errors P output) (errors r)"
proof -
  let ?es = "map recategorize (decoded_errors P output)"
  have "list_all2 (\<lambda>e e'. e' = e \<or> (\<exists>i j. e' = with_span e i j)) ?es (errors r)"
    using errors_cases[OF assms]
  proof
    assume "\<exists>u. locate_all L w (replicate (length w) False) ?es = Inr (u, errors r)"
    then show ?thesis using locate_all_rel by blast
  next
    assume "(\<exists>x. locate_all L w (replicate (length w) False) ?es = Inl x) \<and> errors r = ?es"
    then show ?thesis by (simp add: list_all2_same del: list_all2_map1 list_all2_map2)
  qed
  then show ?thesis by (simp add: list_all2_map1)
qed

subsection \<open>Categories\<close>

text \<open>
  C5. Record by record, in the order of decoding: the category (the property
  \<^verbatim>\<open>type\<close>) of the emitted record is \<^verbatim>\<open>style\<close> when the decoded record has
  \<^verbatim>\<open>register\<close>, and otherwise it is the decoded record's category, whatever it is (also
  when it is none of the four recognized values, or missing).
\<close>

theorem register_emitted_as_style:
  assumes "parseAnalysisOutput JSON_parse toLowerCase output writing = Inr r"
  shows "list_all2
           (\<lambda>d e. get_prop e (js ''type'') =
                     (if get_prop d (js ''type'') = Some (JStr (js ''register''))
                      then Some (JStr (js ''style'')) else get_prop d (js ''type'')))
           (decoded_errors JSON_parse output) (errors r)"
proof -
  have "get_prop e (js ''type'') =
          (if get_prop d (js ''type'') = Some (JStr (js ''register''))
           then Some (JStr (js ''style'')) else get_prop d (js ''type''))"
    if "e = recategorize d \<or> (\<exists>i j. e = with_span (recategorize d) i j)" for d e
    using that keys_distinct(2,3)
    by (auto simp: get_prop_with_span_other get_prop_recategorize_type)
  with errors_rel[OF assms] show ?thesis
    by (rule list_all2_mono)
qed

lemma run_categories:
  "parseAnalysisOutput JSON_parse_sample toLowerCase_sample
     (js ''ERRORS: [{\"text\":\"gonna\",\"type\":\"register\"},{\"text\":\"recieve\",\"type\":\"spelling\"},{\"text\":\"it\",\"type\":\"punctuation\"}]'')
     (js ''I am gonna receive it'') =
   Inr \<lparr>overallScore = Num 3,
        criteria =
          map (default_criterion [])
            [js ''Communicative Achievement'', js ''Organisation'', js ''Language'',
             js ''Content''],
        errors =
          [JObj [(js ''text'', JStr (js ''gonna'')), (js ''type'', JStr (js ''style'')),
                 (js ''start'', JNum 5), (js ''end'', JNum 10)],
           JObj [(js ''text'', JStr (js ''recieve'')), (js ''type'', JStr (js ''spelling''))],
           JObj [(js ''text'', JStr (js ''it'')), (js ''type'', JStr (js ''punctuation'')),
                 (js ''start'', JNum 19), (js ''end'', JNum 21)]]\<rparr>"
  by (simp add: string_defs extractor_defs parser_defs locator_defs sample_defs floor_7_2)

lemma decoded_categories:
  "decoded_errors JSON_parse_sample
     (js ''ERRORS: [{\"text\":\"gonna\",\"type\":\"register\"},{\"text\":\"recieve\",\"type\":\"spelling\"},{\"text\":\"it\",\"type\":\"punctuation\"}]'') =
     [JObj [(js ''text'', JStr (js ''gonna'')), (js ''type'', JStr (js ''register''))],
      JObj [(js ''text'', JStr (js ''recieve'')), (js ''type'', JStr (js ''spelling''))],
      JObj [(js ''text'', JStr (js ''it'')), (js ''type'', JStr (js ''punctuation''))]]"
  by (simp add: decoded_errors_def string_defs parser_defs locator_defs sample_defs)

text \<open>
  An instance of C5: of three decoded records the one with \<^verbatim>\<open>register\<close> is emitted
  with \<^verbatim>\<open>style\<close>; \<^verbatim>\<open>spelling\<close> and the unrecognized \<^verbatim>\<open>punctuation\<close> are emitted as
  they are.
\<close>

theorem register_emitted_as_style_witness:
  "\<exists>r. parseAnalysisOutput JSON_parse_sample toLowerCase_sample
          (js ''ERRORS: [{\"text\":\"gonna\",\"type\":\"register\"},{\"text\":\"recieve\",\"type\":\"spelling\"},{\"text\":\"it\",\"type\":\"punctuation\"}]'')
          (js ''I am gonna receive it'') = Inr r
       \<and> map (\<lambda>d. get_prop d (js ''type''))
             (decoded_errors JSON_parse_sample
               (js ''ERRORS: [{\"text\":\"gonna\",\"type\":\"register\"},{\"text\":\"recieve\",\"type\":\"spelling\"},{\"text\":\"it\",\"type\":\"punctuation\"}]''))
           = [Some (JStr (js ''register'')), Some (JStr (js ''spelling'')),
              Some (JStr (js ''punctuation''))]
       \<and> map (\<lambda>e. get_prop e (js ''type'')) (errors r)
           = [Some (JStr (js ''style'')), Some (JStr (js ''spelling'')),
              Some (JStr (js ''punctuation''))]"
  unfolding run_categories decoded_categories
  using register_emitted_as_style[OF run_categories]
  by (simp add: js_def)

subsection \<open>Fragments\<close>




















subsection \<open>Records that are not found\<close>

lemma find_from_None:
  "find_from nW nE u i0 = None \<Longrightarrow> i0 \<le> j \<Longrightarrow>
     \<not> (j + length nE \<le> length nW \<and> substring nW j (j + length nE) = nE
          \<and> \<not> any_used u j (length nE))"
proof (induction nW nE u i0 rule: find_from.induct)
  case (1 nW nE u i0)
  show ?case
  proof (cases "i0 + length nE \<le> length nW")
    case False
    with "1.prems"(2) show ?thesis by simp
  next
    case inside: True
    have here: "\<not> (substring nW i0 (i0 + length nE) = nE \<and> \<not> any_used u i0 (length nE))"
      using "1.prems"(1) inside
      by (auto simp: find_from.simps[of nW nE u i0] split: if_splits)
    then have next_one: "find_from nW nE u (i0 + 1) = None"
      using "1.prems"(1) inside by (auto simp: find_from.simps[of nW nE u i0] split: if_splits)
    show ?thesis
    proof (cases "j = i0")
      case True
      with here show ?thesis by simp
    next
      case False
      with "1.prems"(2) have "i0 + 1 \<le> j" by simp
      from "1.IH"[OF inside here next_one this] show ?thesis .
    qed
  qed
qed

lemma find_from_unused:
  "find_from (L w) (L t) u 0 = Some i \<Longrightarrow>
     unused_occurrence L w u t i \<and> (\<forall>j<i. \<not> unused_occurrence L w u t j)"
  by (drule find_from_Some) (auto simp: unused_occurrence_def)

lemma no_unused_occurrence:
  "find_from (L w) (L t) u 0 = None \<Longrightarrow> \<not> unused_occurrence L w u t i"
  using find_from_None[of "L w" "L t" u 0 i] by (auto simp: unused_occurrence_def)

text \<open>
  C7, as amended. Take the record at position \<open>k\<close> of the decoded, recategorized list, with
  the quoted text \<open>t\<close>, and suppose that with the mask left by the records before it no
  occurrence of the lower-cased text in the lower-cased submission is unused. Then the
  output list is as long as the decoded one and holds that very record at position \<open>k\<close>:
  nothing is attached to it. Its span is the one the decoded record came with: none, unless
  the decoded record has a start and an end of its own, which are kept as they are.
\<close>

theorem unlocated_record_kept:
  assumes "parseAnalysisOutput JSON_parse toLowerCase output writing = Inr r"
    and "es = map recategorize (decoded_errors JSON_parse output)"
    and "k < length es"
    and "get_prop (es ! k) (js ''text'') = Some (JStr t)"
    and "\<forall>uk outk.
           locate_all toLowerCase writing (replicate (length writing) False) (take k es)
             = Inr (uk, outk)
           \<longrightarrow> (\<forall>i. \<not> unused_occurrence toLowerCase writing uk t i)"
  shows "length (errors r) = length es \<and> errors r ! k = es ! k
       \<and> located_span (errors r ! k) = located_span (decoded_errors JSON_parse output ! k)"
proof -
  let ?u0 = "replicate (length writing) False"
  have main: "length (errors r) = length es \<and> errors r ! k = es ! k"
    using errors_cases[OF assms(1)]
  proof
    assume "\<exists>u. locate_all toLowerCase writing ?u0
                  (map recategorize (decoded_errors JSON_parse output)) = Inr (u, errors r)"
    then obtain u where run: "locate_all toLowerCase writing ?u0 es = Inr (u, errors r)"
      using assms(2) by auto
    from locate_all_step[OF run assms(3)] obtain uk uk' where
      pre: "locate_all toLowerCase writing ?u0 (take k es) = Inr (uk, take k (errors r))"
      and one: "locate_one toLowerCase writing uk (es ! k) = Inr (uk', errors r ! k)"
      by blast
    from assms(5) pre have none: "\<not> unused_occurrence toLowerCase writing uk t i" for i
      by blast
    from locate_one_cases[OF one] have "errors r ! k = es ! k"
    proof
      assume "\<exists>t' i. get_prop (es ! k) (js ''text'') = Some (JStr t') \<and> t' \<noteq> []
          \<and> find_from (toLowerCase writing) (toLowerCase t') uk 0 = Some i
          \<and> uk' = mark_used i (length (toLowerCase t')) uk
          \<and> errors r ! k = with_span (es ! k) i (i + length t')"
      then obtain i where "find_from (toLowerCase writing) (toLowerCase t) uk 0 = Some i"
        using assms(4) by auto
      from find_from_unused[where L = toLowerCase and w = writing and t = t, OF this] none
      show ?thesis by blast
    qed simp
    with locate_all_length[OF run] show ?thesis by simp
  next
    assume "(\<exists>x. locate_all toLowerCase writing ?u0
                  (map recategorize (decoded_errors JSON_parse output)) = Inl x)
            \<and> errors r = map recategorize (decoded_errors JSON_parse output)"
    then show ?thesis using assms(2) by simp
  qed
  moreover have "located_span (es ! k) = located_span (decoded_errors JSON_parse output ! k)"
    using assms(2,3) by (simp add: located_span_recategorize)
  ultimately show ?thesis by simp
qed

lemma run_recieve:
  "parseAnalysisOutput JSON_parse_sample toLowerCase_sample
     (js ''ERRORS: [{\"text\":\"recieve\"}]'') (js ''I receive it'') =
   Inr \<lparr>overallScore = Num 3,
        criteria =
          map (default_criterion [])
            [js ''Communicative Achievement'', js ''Organisation'', js ''Language'',
             js ''Content''],
        errors = [JObj [(js ''text'', JStr (js ''recieve''))]]\<rparr>"
  by (simp add: string_defs extractor_defs parser_defs locator_defs sample_defs floor_7_2)

lemma decoded_recieve:
  "decoded_errors JSON_parse_sample (js ''ERRORS: [{\"text\":\"recieve\"}]'') =
     [JObj [(js ''text'', JStr (js ''recieve''))]]"
  by (simp add: decoded_errors_def string_defs parser_defs locator_defs sample_defs)

lemma recieve_not_found:
  "find_from (toLowerCase_sample (js ''I receive it'')) (toLowerCase_sample (js ''recieve''))
     (replicate (length (js ''I receive it'')) False) 0 = None"
  by (simp add: string_defs locator_defs sample_defs)

text \<open>
  An instance of C7: the text \<^verbatim>\<open>recieve\<close> does not occur in the submission
  \<^verbatim>\<open>I receive it\<close>; the record is in the result, without a span.
\<close>

theorem unlocated_record_kept_witness:
  "\<exists>r. parseAnalysisOutput JSON_parse_sample toLowerCase_sample
          (js ''ERRORS: [{\"text\":\"recieve\"}]'') (js ''I receive it'') = Inr r
       \<and> length (errors r) = 1
       \<and> errors r ! 0 = JObj [(js ''text'', JStr (js ''recieve''))]
       \<and> located_span (errors r ! 0) = None"
proof -
  let ?es = "map recategorize
      (decoded_errors JSON_parse_sample (js ''ERRORS: [{\"text\":\"recieve\"}]''))"
  have es: "?es = [JObj [(js ''text'', JStr (js ''recieve''))]]"
    unfolding decoded_recieve by (simp add: recategorize_def js_def)
  have k: "0 < length ?es" by (simp add: es)
  have t: "get_prop (?es ! 0) (js ''text'') = Some (JStr (js ''recieve''))"
    by (simp add: es)
  have none: "\<forall>uk outk.
      locate_all toLowerCase_sample (js ''I receive it'')
        (replicate (length (js ''I receive it'')) False) (take 0 ?es) = Inr (uk, outk)
      \<longrightarrow> (\<forall>i. \<not> unused_occurrence toLowerCase_sample (js ''I receive it'') uk
                   (js ''recieve'') i)"
    using no_unused_occurrence[where L = toLowerCase_sample and w = "js ''I receive it''"
        and t = "js ''recieve''", OF recieve_not_found]
    by simp
  have span: "located_span (decoded_errors JSON_parse_sample
      (js ''ERRORS: [{\"text\":\"recieve\"}]'') ! 0) = None"
    unfolding decoded_recieve by (simp add: located_span_def js_def)
  from unlocated_record_kept[OF run_recieve refl k t none] span es
  show ?thesis unfolding run_recieve by simp
qed

lemma run_own_span:
  "parseAnalysisOutput JSON_parse_sample toLowerCase_sample
     (js ''ERRORS: [{\"text\":\"zz\",\"start\":7,\"end\":8}]'') (js ''ab'') =
   Inr \<lparr>overallScore = Num 3,
        criteria =
          map (default_criterion [])
            [js ''Communicative Achievement'', js ''Organisation'', js ''Language'',
             js ''Content''],
        errors = [JObj [(js ''text'', JStr (js ''zz'')), (js ''start'', JNum 7),
                        (js ''end'', JNum 8)]]\<rparr>"
  by (simp add: string_defs extractor_defs parser_defs locator_defs sample_defs floor_7_2)

lemma zz_not_found:
  "find_from (toLowerCase_sample (js ''ab'')) (toLowerCase_sample (js ''zz''))
     (replicate (length (js ''ab'')) False) 0 = None"
  by (simp add: string_defs locator_defs sample_defs)

text \<open>
  C7, as stated, fails: the text \<^verbatim>\<open>zz\<close> does not occur in the submission \<^verbatim>\<open>ab\<close>, and the
  record, decoded with a start and an end of its own, is in the result with the span 7 to
  8.
\<close>

theorem own_span_kept_counterexample:
  "\<exists>r. parseAnalysisOutput JSON_parse_sample toLowerCase_sample
          (js ''ERRORS: [{\"text\":\"zz\",\"start\":7,\"end\":8}]'') (js ''ab'') = Inr r
       \<and> (\<forall>i. \<not> unused_occurrence toLowerCase_sample (js ''ab'')
                   (replicate (length (js ''ab'')) False) (js ''zz'') i)
       \<and> length (errors r) = 1
       \<and> get_prop (errors r ! 0) (js ''text'') = Some (JStr (js ''zz''))
       \<and> located_span (errors r ! 0) = Some (7, 8)"
  using no_unused_occurrence[where L = toLowerCase_sample and w = "js ''ab''"
      and t = "js ''zz''", OF zz_not_found]
  unfolding run_own_span by (simp add: located_span_def js_def)

subsection \<open>Located spans\<close>

lemma located_one:
  assumes "locate_one L w u e = Inr (u', e')"
    and "located_span e = None" and "located_span e' = Some (s, x)"
  shows "\<exists>t i. get_prop e (js ''text'') = Some (JStr t) \<and> t \<noteq> []
            \<and> find_from (L w) (L t) u 0 = Some i
            \<and> u' = mark_used i (length (L t)) u
            \<and> e' = with_span e i (i + length t)
            \<and> s = of_nat i \<and> x = of_nat (i + length t)
            \<and> get_prop e' (js ''text'') = Some (JStr t)"
  using locate_one_cases[OF assms(1)]
proof
  assume "u' = u \<and> e' = e
      \<and> (\<forall>t. get_prop e (js ''text'') = Some (JStr t) \<and> t \<noteq> []
             \<longrightarrow> find_from (L w) (L t) u 0 = None)"
  with assms(2,3) show ?thesis by simp
next
  assume "\<exists>t i. get_prop e (js ''text'') = Some (JStr t) \<and> t \<noteq> []
      \<and> find_from (L w) (L t) u 0 = Some i
      \<and> u' = mark_used i (length (L t)) u
      \<and> e' = with_span e i (i + length t)"
  then obtain t i where t: "get_prop e (js ''text'') = Some (JStr t)" "t \<noteq> []"
    and f: "find_from (L w) (L t) u 0 = Some i"
    and u': "u' = mark_used i (length (L t)) u"
    and e': "e' = with_span e i (i + length t)" by blast
  have "located_span e' = Some (of_nat i, of_nat (i + length t))"
    unfolding e' using t(1) by (rule located_span_with_span)
  with assms(3) have "s = of_nat i" "x = of_nat (i + length t)" by simp_all
  moreover have "get_prop e' (js ''text'') = Some (JStr t)"
    unfolding e' using t(1) keys_distinct(4,5) by (simp add: get_prop_with_span_other)
  ultimately show ?thesis using t f u' e' by blast
qed













text \<open>
  C10, as amended. Take a record of the result that carries a span, decoded without one,
  and let \<open>t\<close> be its quoted text. The start is a natural number \<open>i\<close> and the end is
  \<open>i\<close> plus the length of \<open>t\<close>. Provided lower-casing changes neither the length of
  \<open>t\<close> nor the length of the submission, and the lower-cased range of the submission
  from \<open>i\<close> to the end is that range of the lower-cased submission, the end is at most
  the length of the submission and the range, lower-cased, is the lower-cased \<open>t\<close>.
\<close>

theorem located_span_matches_text:
  assumes "parseAnalysisOutput JSON_parse toLowerCase output writing = Inr r"
    and "k < length (errors r)"
    and "located_span (decoded_errors JSON_parse output ! k) = None"
    and "located_span (errors r ! k) = Some (s, e)"
  shows "\<exists>t i. get_prop (errors r ! k) (js ''text'') = Some (JStr t)
            \<and> s = of_nat i \<and> 0 \<le> s \<and> e = s + of_nat (length t)
            \<and> (length (toLowerCase t) = length t
                 \<and> length (toLowerCase writing) = length writing
                 \<and> toLowerCase (substring writing i (i + length t))
                     = substring (toLowerCase writing) i (i + length t)
                 \<longrightarrow> e \<le> of_nat (length writing)
                     \<and> toLowerCase (substring writing i (i + length t)) = toLowerCase t)"
proof -
  let ?es = "map recategorize (decoded_errors JSON_parse output)"
  let ?u0 = "replicate (length writing) False"
  from errors_cases[OF assms(1)] show ?thesis
  proof
    assume "\<exists>u. locate_all toLowerCase writing ?u0 ?es = Inr (u, errors r)"
    then obtain u where run: "locate_all toLowerCase writing ?u0 ?es = Inr (u, errors r)"
      by blast
    have len: "length (errors r) = length ?es" using run by (rule locate_all_length)
    with assms(2) have k: "k < length ?es" by simp
    from locate_all_step[OF run k] obtain uk uk' where
      one: "locate_one toLowerCase writing uk (?es ! k) = Inr (uk', errors r ! k)"
      by blast
    have "located_span (?es ! k) = None"
      using k assms(3) by (simp add: located_span_recategorize)
    from located_one[OF one this assms(4)] obtain t i where
      f: "find_from (toLowerCase writing) (toLowerCase t) uk 0 = Some i"
      and se: "s = of_nat i" "e = of_nat (i + length t)"
      and tx: "get_prop (errors r ! k) (js ''text'') = Some (JStr t)" by blast
    from find_from_Some[OF f] have
      inside: "i + length (toLowerCase t) \<le> length (toLowerCase writing)"
      and occ: "substring (toLowerCase writing) i (i + length (toLowerCase t)) = toLowerCase t"
      by simp_all
    have "e \<le> of_nat (length writing)
        \<and> toLowerCase (substring writing i (i + length t)) = toLowerCase t"
      if "length (toLowerCase t) = length t" "length (toLowerCase writing) = length writing"
        "toLowerCase (substring writing i (i + length t))
           = substring (toLowerCase writing) i (i + length t)"
    proof -
      from inside that(1,2) have "i + length t \<le> length writing" by simp
      then have "(of_nat (i + length t) :: rat) \<le> of_nat (length writing)"
        by (simp only: of_nat_le_iff)
      with se occ that show ?thesis by simp
    qed
    with se tx show ?thesis by auto
  next
    assume "(\<exists>x. locate_all toLowerCase writing ?u0 ?es = Inl x) \<and> errors r = ?es"
    then have "errors r = ?es" by simp
    with assms(2,3,4) show ?thesis by (simp add: located_span_recategorize)
  qed
qed

lemma run_gonna:
  "parseAnalysisOutput JSON_parse_sample lower_ascii
     (js ''ERRORS: [{\"text\":\"Gonna\"}]'') (js ''I am GONNA go'') =
   Inr \<lparr>overallScore = Num 3,
        criteria =
          map (default_criterion [])
            [js ''Communicative Achievement'', js ''Organisation'', js ''Language'',
             js ''Content''],
        errors = [JObj [(js ''text'', JStr (js ''Gonna'')), (js ''start'', JNum 5),
                        (js ''end'', JNum 10)]]\<rparr>"
  by (simp add: string_defs extractor_defs parser_defs locator_defs sample_defs floor_7_2)

lemma decoded_gonna:
  "decoded_errors JSON_parse_sample (js ''ERRORS: [{\"text\":\"Gonna\"}]'') =
     [JObj [(js ''text'', JStr (js ''Gonna''))]]"
  by (simp add: decoded_errors_def string_defs parser_defs locator_defs sample_defs)

text \<open>
  An instance of C10, with the lower-casing of ASCII letters: the text \<^verbatim>\<open>Gonna\<close> is
  found at the offsets 5 to 10 of \<^verbatim>\<open>I am GONNA go\<close>.
\<close>

theorem located_span_matches_text_witness:
  "\<exists>r. parseAnalysisOutput JSON_parse_sample lower_ascii
          (js ''ERRORS: [{\"text\":\"Gonna\"}]'') (js ''I am GONNA go'') = Inr r
       \<and> located_span (errors r ! 0) = Some (5, 10)
       \<and> get_prop (errors r ! 0) (js ''text'') = Some (JStr (js ''Gonna''))
       \<and> length (lower_ascii (js ''Gonna'')) = length (js ''Gonna'')
       \<and> length (lower_ascii (js ''I am GONNA go'')) = length (js ''I am GONNA go'')
       \<and> lower_ascii (substring (js ''I am GONNA go'') 5 10)
           = substring (lower_ascii (js ''I am GONNA go'')) 5 10
       \<and> (10 :: rat) \<le> of_nat (length (js ''I am GONNA go''))
       \<and> lower_ascii (substring (js ''I am GONNA go'') 5 10) = lower_ascii (js ''Gonna'')"
proof -
  let ?r = "\<lparr>overallScore = Num 3,
        criteria =
          map (default_criterion [])
            [js ''Communicative Achievement'', js ''Organisation'', js ''Language'',
             js ''Content''],
        errors = [JObj [(js ''text'', JStr (js ''Gonna'')), (js ''start'', JNum 5),
                        (js ''end'', JNum 10)]]\<rparr>"
  have k: "0 < length (errors ?r)" by simp
  have noown: "located_span (decoded_errors JSON_parse_sample
      (js ''ERRORS: [{\"text\":\"Gonna\"}]'') ! 0) = None"
    unfolding decoded_gonna by (simp add: located_span_def js_def)
  have span: "located_span (errors ?r ! 0) = Some (5, 10)"
    by (simp add: located_span_def js_def)
  have quoted: "get_prop (errors ?r ! 0) (js ''text'') = Some (JStr (js ''Gonna''))"
    by simp
  from located_span_matches_text[OF run_gonna k noown span] obtain t i where
    t: "get_prop (errors ?r ! 0) (js ''text'') = Some (JStr t)"
    and i: "(5 :: rat) = of_nat i"
    and rest: "length (lower_ascii t) = length t
        \<and> length (lower_ascii (js ''I am GONNA go'')) = length (js ''I am GONNA go'')
        \<and> lower_ascii (substring (js ''I am GONNA go'') i (i + length t))
            = substring (lower_ascii (js ''I am GONNA go'')) i (i + length t)
        \<longrightarrow> (10 :: rat) \<le> of_nat (length (js ''I am GONNA go''))
            \<and> lower_ascii (substring (js ''I am GONNA go'') i (i + length t)) = lower_ascii t"
    by blast
  from t quoted have t': "t = js ''Gonna''" by simp
  from i have "of_nat i = (of_nat 5 :: rat)" by simp
  then have i': "i = 5" by (simp only: of_nat_eq_iff)
  have lens: "length (lower_ascii (js ''Gonna'')) = length (js ''Gonna'')"
    "length (lower_ascii (js ''I am GONNA go'')) = length (js ''I am GONNA go'')"
    by (simp_all add: lower_ascii_def)
  have comm: "lower_ascii (substring (js ''I am GONNA go'') 5 10)
      = substring (lower_ascii (js ''I am GONNA go'')) 5 10"
    by (simp add: lower_ascii_def substring_def take_map drop_map)
  have len5: "length (js ''Gonna'') = 5" by (simp add: js_def)
  from rest[unfolded t' i'] lens comm len5
  have "(10 :: rat) \<le> of_nat (length (js ''I am GONNA go''))
      \<and> lower_ascii (substring (js ''I am GONNA go'') 5 10) = lower_ascii (js ''Gonna'')"
    by simp
  with span quoted lens comm show ?thesis unfolding run_gonna by simp
qed

lemma run_dotted_capital:
  "parseAnalysisOutput JSON_parse_sample toLowerCase_sample
     (js ''ERRORS: [{\"text\":\"a\"}]'') [304, 97] =
   Inr \<lparr>overallScore = Num 3,
        criteria =
          map (default_criterion [])
            [js ''Communicative Achievement'', js ''Organisation'', js ''Language'',
             js ''Content''],
        errors = [JObj [(js ''text'', JStr (js ''a'')), (js ''start'', JNum 2),
                        (js ''end'', JNum 3)]]\<rparr>"
  by (simp add: string_defs extractor_defs parser_defs locator_defs sample_defs floor_7_2)

text \<open>
  C10, as stated, fails. The submission is U+0130 followed by \<^verbatim>\<open>a\<close>, two units long; its
  lower case is three units long (U+0069 U+0307 \<^verbatim>\<open>a\<close>). The quoted text \<^verbatim>\<open>a\<close> keeps its
  length when lower-cased, and it is found at offset 2 of the lower-cased submission: the
  span is 2 to 3, its end is past the end of the submission, and the range 2 to 3 of the
  submission is empty.
\<close>

theorem span_past_submission_counterexample:
  "\<exists>r. parseAnalysisOutput JSON_parse_sample toLowerCase_sample
          (js ''ERRORS: [{\"text\":\"a\"}]'') [304, 97] = Inr r
       \<and> get_prop (errors r ! 0) (js ''text'') = Some (JStr (js ''a''))
       \<and> length (toLowerCase_sample (js ''a'')) = length (js ''a'')
       \<and> located_span (errors r ! 0) = Some (2, 3)
       \<and> \<not> (3 :: rat) \<le> of_nat (length [304, 97 :: nat])
       \<and> toLowerCase_sample (substring [304, 97] 2 3) \<noteq> toLowerCase_sample (js ''a'')"
  unfolding run_dotted_capital
  by (simp add: located_span_def substring_def toLowerCase_sample_def js_def)

end
